theory Spec2Isabelle
  imports Complex_Main "HOL-Library.Sublist"
begin

section \<open>Text\<close>

text \<open>
  The program handles Python \<open>str\<close> values. A \<^typ>\<open>string\<close> is read here as the
  list of code points of a \<open>str\<close>, one \<^typ>\<open>char\<close> per code point, for the code
  points below 256 (so \<open>"\xa0"\<close>, the non-breaking space, is the character 160).
  \<open>isspace\<close>, \<open>strip\<close> and \<open>lower\<close> are \<open>str.isspace\<close>, \<open>str.strip()\<close> and
  \<open>str.lower()\<close> on that range.
\<close>

definition isspace :: "char \<Rightarrow> bool" where
  "isspace c = (of_char c \<in> {9, 10, 11, 12, 13, 28, 29, 30, 31, 32, 133, 160 :: nat})"

definition strip :: "string \<Rightarrow> string" where
  "strip s = rev (dropWhile isspace (rev (dropWhile isspace s)))"

definition lower_char :: "char \<Rightarrow> char" where
  "lower_char c =
     (let n = of_char c :: nat
      in if (65 \<le> n \<and> n \<le> 90) \<or> (192 \<le> n \<and> n \<le> 222 \<and> n \<noteq> 215)
         then char_of (n + 32) else c)"

definition lower :: "string \<Rightarrow> string" where
  "lower s = map lower_char s"

text \<open>\<open>s.replace("\xa0", " ")\<close>: every non-breaking space becomes a space.\<close>

definition replace_nbsp :: "string \<Rightarrow> string" where
  "replace_nbsp s = map (\<lambda>c. if c = CHR 0xA0 then CHR '' '' else c) s"

text \<open>\<open>sep.join(xs)\<close>.\<close>

fun join :: "string \<Rightarrow> string list \<Rightarrow> string" where
  "join sep [] = []"
| "join sep [x] = x"
| "join sep (x # y # ys) = x @ sep @ join sep (y # ys)"

text \<open>\<open>str(n)\<close> for a length: the decimal digits of a natural number.\<close>

fun str_nat :: "nat \<Rightarrow> string" where
  "str_nat n =
     (if n < 10 then [char_of (48 + n)]
      else str_nat (n div 10) @ [char_of (48 + n mod 10)])"

declare str_nat.simps [simp del]

section \<open>Schema catalog\<close>

definition REQUIRED_COLUMNS :: "string list" where
  "REQUIRED_COLUMNS =
     [''Timestamp'', ''Email Address'', ''OCR'', ''Bill Ref Code'', ''Track ID'',
      ''Annotation ID'', ''Document Type'', ''Matched Payee ID'', ''Payer'', ''Review'',
      ''Bill Lines'', ''Payee Name'', ''Invoice'', ''Invoice Date'', ''Invoice Due Date'',
      ''Terms'', ''PO'', ''Tax Amt'', ''Total Amt'', ''Currency'', ''Foreign Language'',
      ''Quality Analyst'', ''Invoice Pages'', ''Multiple Payees'', ''Comments'',
      ''PST to IST'', ''US Date'', ''IND Date'', ''IND Time'', ''Team'', ''Agent'',
      ''Unique ID'', ''Priority'', ''Month'', ''Hour'', ''EMEA'']"

datatype dtype = Datetime64 | String | Int64 | Float64

definition COLUMN_DATA_TYPES :: "(string \<times> dtype) list" where
  "COLUMN_DATA_TYPES =
     [(''Timestamp'', Datetime64), (''Email Address'', String), (''OCR'', String),
      (''Bill Ref Code'', String), (''Track ID'', String), (''Annotation ID'', String),
      (''Document Type'', String), (''Matched Payee ID'', String), (''Payer'', String),
      (''Review'', String), (''Bill Lines'', Int64), (''Payee Name'', String),
      (''Invoice'', Int64), (''Invoice Date'', String), (''Invoice Due Date'', String),
      (''Terms'', String), (''PO'', String), (''Tax Amt'', Float64),
      (''Total Amt'', Float64), (''Currency'', String), (''Foreign Language'', String),
      (''Quality Analyst'', String), (''Invoice Pages'', Int64),
      (''Multiple Payees'', String), (''Comments'', String), (''PST to IST'', String),
      (''US Date'', Datetime64), (''IND Date'', Datetime64), (''IND Time'', String),
      (''Team'', String), (''Agent'', String), (''Unique ID'', String),
      (''Priority'', String), (''Month'', String), (''Hour'', Int64), (''EMEA'', String)]"

section \<open>Header normalization\<close>

text \<open>
  \<^verbatim>\<open>
  def clean_column_names(columns):
      return [col.strip().replace("\xa0", " ") for col in columns]
  \<close>
\<close>

definition clean_column_names :: "string list \<Rightarrow> string list" where
  "clean_column_names columns = map (\<lambda>col. replace_nbsp (strip col)) columns"

text \<open>A name that neither starts nor ends with a white-space character.\<close>

definition trimmed :: "string \<Rightarrow> bool" where
  "trimmed s = (s = [] \<or> (\<not> isspace (hd s) \<and> \<not> isspace (last s)))"

section \<open>Cells and frames\<close>

text \<open>
  A cell of a \<open>DataFrame\<close> holds \<open>None\<close>, the missing value \<open>NaN\<close> (\<open>NaT\<close> is not
  kept apart from it: \<open>pd.notna\<close> is false for both), a \<open>str\<close>, or a number. A finite
  number is the rational it denotes: the binary rounding of \<open>float64\<close> is not modelled,
  and neither is the width of an integer column.
\<close>

datatype cell = PyNone | NaN | Str string | Num rat | Infinity bool

record 'a frame =
  columns :: "string list"
  rows :: "'a list list"

text \<open>
  \<open>read_csv\<close> returns a rectangular frame. \<open>df[column]\<close> for a column name that
  occurs once is the list of the cells under it; the value under a name in one row is
  found by position.
\<close>

definition rectangular :: "'a frame \<Rightarrow> bool" where
  "rectangular df = (\<forall>r \<in> set (rows df). length r = length (columns df))"

definition cell_of :: "string list \<Rightarrow> cell list \<Rightarrow> string \<Rightarrow> cell" where
  "cell_of cols r column = (case map_of (zip cols r) column of Some x \<Rightarrow> x | None \<Rightarrow> NaN)"

definition get_column :: "cell frame \<Rightarrow> string \<Rightarrow> cell list" where
  "get_column df column = map (\<lambda>r. cell_of (columns df) r column) (rows df)"

text \<open>
  \<open>df[column] = f(df[column])\<close>, cell by cell: in each row, the cells under the name
  \<open>column\<close> change and the others stay.
\<close>

fun map_cells :: "(string \<Rightarrow> 'a \<Rightarrow> 'a) \<Rightarrow> string list \<Rightarrow> 'a list \<Rightarrow> 'a list" where
  "map_cells g [] r = r"
| "map_cells g (name # names) [] = []"
| "map_cells g (name # names) (x # xs) = g name x # map_cells g names xs"

definition map_column :: "string \<Rightarrow> (cell \<Rightarrow> cell) \<Rightarrow> cell frame \<Rightarrow> cell frame" where
  "map_column column f df =
     df\<lparr>rows := map (map_cells (\<lambda>name x. if name = column then f x else x) (columns df))
                     (rows df)\<rparr>"

text \<open>
  A \<open>pandas.Timestamp\<close>, as far as \<open>strftime('%Y-%m-%d %H:%M:%S')\<close> reads it. Its
  year lies between 1677 and 2262.
\<close>

record timestamp =
  year :: nat
  month :: nat
  day :: nat
  hour :: nat
  minute :: nat
  second :: nat

definition valid_timestamp :: "timestamp \<Rightarrow> bool" where
  "valid_timestamp t =
     (1677 \<le> year t \<and> year t \<le> 2262 \<and> 1 \<le> month t \<and> month t \<le> 12 \<and>
      1 \<le> day t \<and> day t \<le> 31 \<and> hour t < 24 \<and> minute t < 60 \<and> second t < 60)"

text \<open>
  What the program takes from libraries and the model does not define: the date parser
  \<open>pd.to_datetime(column, errors="coerce")\<close>, which sees the whole column (it may infer
  one format for it) and gives each cell a time stamp or \<open>NaT\<close>; and \<open>str(x)\<close> for a
  number \<open>x\<close>.
\<close>

record library =
  to_datetime :: "cell list \<Rightarrow> cell \<Rightarrow> timestamp option"
  str_number :: "cell \<Rightarrow> string"

text \<open>\<open>str(x)\<close>, as \<open>astype(str)\<close> applies it to each cell.\<close>

definition py_str :: "library \<Rightarrow> cell \<Rightarrow> string" where
  "py_str L x = (case x of Str s \<Rightarrow> s | PyNone \<Rightarrow> ''None'' | NaN \<Rightarrow> ''nan''
                 | _ \<Rightarrow> str_number L x)"

text \<open>
  \<open>pd.to_datetime(column, errors="coerce")\<close>: the date parser, with \<open>NaT\<close> for a cell
  it does not read. Which texts it reads depends on the version of the library and on
  the rest of the column, but none reads the text \<open>not-a-date\<close>, whose words are not
  among those of any date format and which has no digit: that much of the parser is
  fixed here, the rest is the parameter.
\<close>

definition pd_to_datetime :: "library \<Rightarrow> cell list \<Rightarrow> cell \<Rightarrow> timestamp option" where
  "pd_to_datetime L col x = (if x = Str ''not-a-date'' then None else to_datetime L col x)"

section \<open>Type coercion\<close>

subsection \<open>Numbers\<close>

text \<open>
  \<open>pd.to_numeric(column, errors="coerce")\<close> on a \<open>str\<close>: the empty string is missing;
  otherwise the string is read by the C parser of pandas (\<open>xstrtod\<close>): white space,
  a sign, digits, a decimal part, an exponent, white space, and nothing else; a string
  it rejects may still spell an infinity; any other string is missing.
\<close>

definition isspace_ascii :: "char \<Rightarrow> bool" where
  "isspace_ascii c = (of_char c \<in> {9, 10, 11, 12, 13, 32 :: nat})"

definition isdigit_ascii :: "char \<Rightarrow> bool" where
  "isdigit_ascii c = (48 \<le> (of_char c :: nat) \<and> (of_char c :: nat) \<le> 57)"

definition digits_value :: "string \<Rightarrow> nat" where
  "digits_value ds = foldl (\<lambda>a c. 10 * a + (of_char c - 48)) 0 ds"

definition take_sign :: "string \<Rightarrow> bool \<times> string" where
  "take_sign s = (case s of
       c # r \<Rightarrow> if c = CHR ''-'' then (True, r) else if c = CHR ''+'' then (False, r) else (False, s)
     | [] \<Rightarrow> (False, s))"

definition scale10 :: "rat \<Rightarrow> int \<Rightarrow> rat" where
  "scale10 q e = (if 0 \<le> e then q * 10 ^ nat e else q / 10 ^ nat (- e))"

definition xstrtod :: "string \<Rightarrow> rat option" where
  "xstrtod s =
     (let (negative, p1) = take_sign (dropWhile isspace_ascii s);
          int_digits = takeWhile isdigit_ascii p1;
          p2 = dropWhile isdigit_ascii p1;
          has_point = (p2 \<noteq> [] \<and> hd p2 = CHR ''.'');
          frac_digits = (if has_point then takeWhile isdigit_ascii (tl p2) else []);
          p3 = (if has_point then dropWhile isdigit_ascii (tl p2) else p2);
          has_exp = (p3 \<noteq> [] \<and> (hd p3 = CHR ''e'' \<or> hd p3 = CHR ''E''));
          (exp_negative, p4) = (if has_exp then take_sign (tl p3) else (False, p3));
          exp_digits = (if has_exp then takeWhile isdigit_ascii p4 else []);
          p5 = (if has_exp then dropWhile isdigit_ascii p4 else p3);
          n = int (digits_value exp_digits);
          exponent = (if exp_negative then - n else n) - int (length frac_digits);
          number = of_nat (digits_value (int_digits @ frac_digits))
      in if int_digits @ frac_digits = [] then None
         else if has_exp \<and> exp_digits = [] then None
         else if dropWhile isspace_ascii p5 \<noteq> [] then None
         else Some (scale10 (if negative then - number else number) exponent))"

definition to_numeric :: "cell \<Rightarrow> cell" where
  "to_numeric x = (case x of
       Str s \<Rightarrow>
         (if s = [] then NaN
          else case xstrtod s of
            Some q \<Rightarrow> Num q
          | None \<Rightarrow>
              if lower s \<in> {''inf'', ''+inf'', ''infinity'', ''+infinity''} then Infinity True
              else if lower s \<in> {''-inf'', ''-infinity''} then Infinity False
              else NaN)
     | PyNone \<Rightarrow> NaN
     | _ \<Rightarrow> x)"

text \<open>
  \<open>downcast="integer"\<close>: when no value of the column is missing and each is within
  \<open>1e-8\<close> of the integer it truncates to (\<open>np.allclose(new, old, rtol=0)\<close>), the
  column becomes an integer column of those integers; otherwise it is left as it is.
\<close>

definition trunc :: "rat \<Rightarrow> int" where
  "trunc q = (if 0 \<le> q then \<lfloor>q\<rfloor> else \<lceil>q\<rceil>)"

definition close_to_int :: "cell \<Rightarrow> bool" where
  "close_to_int x = (case x of Num q \<Rightarrow> \<bar>q - of_int (trunc q)\<bar> \<le> 1 / 10 ^ 8 | _ \<Rightarrow> False)"

definition downcast_integer :: "cell list \<Rightarrow> cell \<Rightarrow> cell" where
  "downcast_integer col x =
     (if list_all close_to_int col
      then (case x of Num q \<Rightarrow> Num (of_int (trunc q)) | _ \<Rightarrow> x)
      else x)"

subsection \<open>Time stamps\<close>

definition digit :: "nat \<Rightarrow> char" where
  "digit n = char_of (48 + n mod 10)"

definition two_digits :: "nat \<Rightarrow> string" where
  "two_digits n = [digit (n div 10), digit n]"

text \<open>\<open>t.strftime('%Y-%m-%d %H:%M:%S')\<close>; \<open>%Y\<close> is the year in decimal.\<close>

definition strftime :: "timestamp \<Rightarrow> string" where
  "strftime t =
     str_nat (year t) @ ''-'' @ two_digits (month t) @ ''-'' @ two_digits (day t) @ '' '' @
     two_digits (hour t) @ '':'' @ two_digits (minute t) @ '':'' @ two_digits (second t)"

text \<open>The texts of the form \<open>YYYY-MM-DD HH:MM:SS\<close>, and the time stamp one spells.\<close>

definition is_ymd_hms :: "string \<Rightarrow> bool" where
  "is_ymd_hms s =
     (length s = 19 \<and>
      list_all isdigit_ascii (take 4 s) \<and> s ! 4 = CHR ''-'' \<and>
      list_all isdigit_ascii (take 2 (drop 5 s)) \<and> s ! 7 = CHR ''-'' \<and>
      list_all isdigit_ascii (take 2 (drop 8 s)) \<and> s ! 10 = CHR '' '' \<and>
      list_all isdigit_ascii (take 2 (drop 11 s)) \<and> s ! 13 = CHR '':'' \<and>
      list_all isdigit_ascii (take 2 (drop 14 s)) \<and> s ! 16 = CHR '':'' \<and>
      list_all isdigit_ascii (take 2 (drop 17 s)))"

definition read_ymd_hms :: "string \<Rightarrow> timestamp" where
  "read_ymd_hms s =
     \<lparr>year = digits_value (take 4 s), month = digits_value (take 2 (drop 5 s)),
      day = digits_value (take 2 (drop 8 s)), hour = digits_value (take 2 (drop 11 s)),
      minute = digits_value (take 2 (drop 14 s)), second = digits_value (take 2 (drop 17 s))\<rparr>"

subsection \<open>The coercion of a frame\<close>

datatype message = St_error string | St_warning string | St_success string | St_write string

definition dtype_name :: "dtype \<Rightarrow> string" where
  "dtype_name d = (case d of Datetime64 \<Rightarrow> ''datetime64'' | String \<Rightarrow> ''string''
                   | Int64 \<Rightarrow> ''Int64'' | Float64 \<Rightarrow> ''float64'')"

text \<open>
  One branch of the \<open>if\<close>/\<open>elif\<close> chain of \<open>enforce_data_types\<close>, for the cell \<open>x\<close> of
  the column \<open>col\<close>:
  \<^verbatim>\<open>
  if dtype.startswith("datetime64"):
      df[column] = pd.to_datetime(df[column], errors="coerce")
      df[column] = df[column].dt.strftime('%Y-%m-%d %H:%M:%S')
  elif dtype == "float64":
      df[column] = pd.to_numeric(df[column], errors="coerce")
  elif dtype == "Int64":
      df[column] = pd.to_numeric(df[column], errors="coerce", downcast="integer")
  else:
      df[column] = df[column].astype(str).str.strip()
  \<close>
\<close>

definition convert_cell :: "library \<Rightarrow> dtype \<Rightarrow> cell list \<Rightarrow> cell \<Rightarrow> cell" where
  "convert_cell L d col x = (case d of
       Datetime64 \<Rightarrow> (case pd_to_datetime L col x of Some t \<Rightarrow> Str (strftime t) | None \<Rightarrow> NaN)
     | Float64 \<Rightarrow> to_numeric x
     | Int64 \<Rightarrow> downcast_integer (map to_numeric col) (to_numeric x)
     | String \<Rightarrow> Str (strip (py_str L x)))"

text \<open>
  When the name \<open>column\<close> occurs more than once in the header, \<open>df[column]\<close> is a
  \<open>DataFrame\<close>, not a column: \<open>pd.to_datetime\<close> and \<open>pd.to_numeric\<close> raise on it and a
  \<open>DataFrame\<close> has no \<open>.str\<close>, in each branch before the assignment. The \<open>except\<close>
  clause then leaves the frame as it is and warns.
\<close>

definition conversion_error :: "dtype \<Rightarrow> string" where
  "conversion_error d = (case d of
       Datetime64 \<Rightarrow> ''cannot assemble with duplicate keys''
     | String \<Rightarrow> [CHR 0x27] @ ''DataFrame'' @ [CHR 0x27] @ '' object has no attribute ''
                  @ [CHR 0x27] @ ''str'' @ [CHR 0x27]
     | _ \<Rightarrow> ''arg must be a list, tuple, 1-d array, or Series'')"

definition enforce_step ::
  "library \<Rightarrow> string \<times> dtype \<Rightarrow> cell frame \<times> message list \<Rightarrow> cell frame \<times> message list"
where
  "enforce_step L item state =
     (let (column, d) = item; (df, warnings) = state
      in if column \<in> set (columns df)
         then (if 1 < count_list (columns df) column
               then (df, warnings @ [St_warning (''Could not convert column '' @ column @ '' to ''
                                       @ dtype_name d @ '': '' @ conversion_error d)])
               else (map_column column (convert_cell L d (get_column df column)) df, warnings))
         else (df, warnings))"

text \<open>
  \<^verbatim>\<open>
  def enforce_data_types(df):
      for column, dtype in COLUMN_DATA_TYPES.items():
          if column in df.columns:
              try: ...
              except Exception as e:
                  st.warning(f"Could not convert column {column} to {dtype}: {e}")
      return df
  \<close>
\<close>

definition enforce_data_types :: "library \<Rightarrow> cell frame \<Rightarrow> cell frame \<times> message list" where
  "enforce_data_types L df = fold (enforce_step L) COLUMN_DATA_TYPES (df, [])"

section \<open>Storage\<close>

text \<open>
  The table \<open>managed_services\<close> and the database driver are outside the program. A
  stored row gives a value to the columns named in its \<open>INSERT\<close>; a column it does not
  name is \<open>NULL\<close>. A connection sees the committed rows of the table (\<open>None\<close> when the
  table does not exist) and the rows it has inserted and not yet committed. How many
  \<open>INSERT\<close> round trips the driver completes before it fails is a field of the
  connection (\<open>None\<close>: it never fails); the server also refuses an \<open>INSERT\<close> that names
  a column twice.
\<close>

type_synonym stored_row = "(string \<times> cell) list"

datatype exn = AttributeError string | ValueError string | DatabaseError string
  | ParserError string

definition exn_text :: "exn \<Rightarrow> string" where
  "exn_text e = (case e of AttributeError s \<Rightarrow> s | ValueError s \<Rightarrow> s
                 | DatabaseError s \<Rightarrow> s | ParserError s \<Rightarrow> s)"

record connection =
  table :: "stored_row list option"
  pending :: "stored_row list"
  round_trips :: "nat option"

definition field :: "stored_row \<Rightarrow> string \<Rightarrow> cell" where
  "field r column = (case map_of r column of Some x \<Rightarrow> x | None \<Rightarrow> PyNone)"

definition table_exists :: "connection \<Rightarrow> bool" where
  "table_exists conn = (table conn \<noteq> None)"

definition executemany :: "connection \<Rightarrow> string list \<Rightarrow> cell list list \<Rightarrow> exn + connection" where
  "executemany conn cols batch =
     (if table conn = None then Inl (DatabaseError ''Table does not exist'')
      else if \<not> distinct cols then Inl (DatabaseError ''Column specified twice'')
      else if round_trips conn = Some 0 then Inl (DatabaseError ''Lost connection'')
      else Inr (conn\<lparr>pending := pending conn @ map (zip cols) batch,
                      round_trips := map_option (\<lambda>n. n - 1) (round_trips conn)\<rparr>))"

definition commit :: "connection \<Rightarrow> connection" where
  "commit conn = conn\<lparr>table := map_option (\<lambda>t. t @ pending conn) (table conn), pending := []\<rparr>"

definition close :: "connection \<Rightarrow> connection" where
  "close conn = conn\<lparr>pending := []\<rparr>"

section \<open>Insertion\<close>

definition notna :: "cell \<Rightarrow> bool" where
  "notna x = (x \<noteq> NaN \<and> x \<noteq> PyNone)"

text \<open>\<open>tuple(row.where(pd.notna(row), None))\<close>\<close>

definition to_tuple :: "cell list \<Rightarrow> cell list" where
  "to_tuple row = map (\<lambda>x. if notna x then x else PyNone) row"

text \<open>
  The loop of \<open>insert_data_in_batches\<close>, from the index \<open>i\<close> on:
  \<^verbatim>\<open>
  for i in range(0, len(df), batch_size):
      batch_data = [tuple(row.where(pd.notna(row), None))
                    for _, row in df.iloc[i:i + batch_size].iterrows()]
      cursor.executemany(insert_query, batch_data)
      connection.commit()
  \<close>
  An exception of \<open>executemany\<close> leaves the loop; the result is the connection and the
  exception, if any.
\<close>

function insert_batches ::
  "connection \<Rightarrow> string list \<Rightarrow> cell list list \<Rightarrow> nat \<Rightarrow> nat \<Rightarrow> connection \<times> exn option"
where
  "insert_batches conn cols rs batch_size i =
     (if i < length rs \<and> 0 < batch_size
      then (case executemany conn cols (map to_tuple (take batch_size (drop i rs))) of
              Inl e \<Rightarrow> (conn, Some e)
            | Inr conn' \<Rightarrow> insert_batches (commit conn') cols rs batch_size (i + batch_size))
      else (conn, None))"
  by pat_completeness auto
termination
  by (relation "measure (\<lambda>(conn, cols, rs, batch_size, i). length rs - i)") auto

declare insert_batches.simps [simp del]

text \<open>
  \<open>range(0, n, 0)\<close> raises \<open>ValueError\<close>; with a negative step it is empty.
\<close>

definition insert_data_in_batches :: "connection \<Rightarrow> cell frame \<Rightarrow> int \<Rightarrow> connection \<times> exn option" where
  "insert_data_in_batches conn df batch_size =
     (if batch_size = 0 then (conn, Some (ValueError ''range() arg 3 must not be zero''))
      else if batch_size < 0 then (conn, None)
      else insert_batches conn (columns df) (rows df) (nat batch_size) 0)"

text \<open>The batches the loop hands to \<open>executemany\<close>, in order.\<close>

function batches :: "'a list \<Rightarrow> nat \<Rightarrow> nat \<Rightarrow> 'a list list" where
  "batches rs batch_size i =
     (if i < length rs \<and> 0 < batch_size
      then take batch_size (drop i rs) # batches rs batch_size (i + batch_size)
      else [])"
  by pat_completeness auto
termination
  by (relation "measure (\<lambda>(rs, batch_size, i). length rs - i)") auto

declare batches.simps [simp del]

section \<open>Deduplication\<close>

definition PRIMARY_KEY :: string where
  "PRIMARY_KEY = ''Unique ID''"

text \<open>\<open>str(x).strip().lower()\<close>\<close>

definition normalize :: "library \<Rightarrow> cell \<Rightarrow> string" where
  "normalize L x = lower (strip (py_str L x))"

text \<open>
  \<open>df.drop_duplicates(subset=[key])\<close> keeps, of the rows with one key, the first:
  a row is dropped when its key is among those seen before it.
\<close>

fun keep_first :: "('a \<Rightarrow> 'k) \<Rightarrow> 'k list \<Rightarrow> 'a list \<Rightarrow> 'a list" where
  "keep_first key seen [] = []"
| "keep_first key seen (r # rs) =
     (if key r \<in> set seen then keep_first key seen rs
      else r # keep_first key (key r # seen) rs)"

definition drop_duplicates :: "string \<Rightarrow> cell frame \<Rightarrow> cell frame" where
  "drop_duplicates key_column df =
     df\<lparr>rows := keep_first (\<lambda>r. cell_of (columns df) r key_column) [] (rows df)\<rparr>"

text \<open>\<open>x in existing_records\<close> for a cell \<open>x\<close>; the set holds \<open>str\<close> values only.\<close>

definition isin :: "cell \<Rightarrow> string list \<Rightarrow> bool" where
  "isin x values = (case x of Str s \<Rightarrow> s \<in> set values | _ \<Rightarrow> False)"

text \<open>
  \<open>{str(row[0]).strip().lower() for row in cursor.fetchall()}\<close> after
  \<open>SELECT `Unique ID` FROM `managed_services`\<close>.
\<close>

definition existing_records :: "library \<Rightarrow> stored_row list \<Rightarrow> string list" where
  "existing_records L t = map (\<lambda>r. normalize L (field r PRIMARY_KEY)) t"

text \<open>
  \<^verbatim>\<open>
  def insert_unique_data(connection, df):
      df.columns = clean_column_names(df.columns)
      primary_key_col = "Unique ID"
      if primary_key_col not in df.columns:
          st.error(f"Missing primary key column: {primary_key_col}")
          return
      df[primary_key_col] = df[primary_key_col].astype(str).str.strip().str.lower()
      df.drop_duplicates(subset=[primary_key_col], inplace=True)
      with connection.cursor() as cursor:
          cursor.execute(f"SELECT `{primary_key_col}` FROM `{TABLE_NAME}`")
          existing_records = {str(row[0]).strip().lower() for row in cursor.fetchall()}
      new_records = df[~df[primary_key_col].isin(existing_records)]
      if new_records.empty:
          st.warning("No new unique records found.")
          return
      insert_data_in_batches(connection, new_records)
      st.success(f"{len(new_records)} unique records uploaded successfully.")
  \<close>
  \<open>new_records\<close> is the frame the function would insert; the result is the connection,
  the messages shown and the exception raised, if any. With the key column named twice
  in the header, \<open>df[primary_key_col]\<close> is a \<open>DataFrame\<close> and \<open>.str\<close> raises.
\<close>

definition new_records :: "library \<Rightarrow> stored_row list \<Rightarrow> cell frame \<Rightarrow> cell frame" where
  "new_records L t df =
     (let df1 = df\<lparr>columns := clean_column_names (columns df)\<rparr>;
          df2 = map_column PRIMARY_KEY (\<lambda>x. Str (normalize L x)) df1;
          df3 = drop_duplicates PRIMARY_KEY df2;
          existing = existing_records L t
      in df3\<lparr>rows := filter (\<lambda>r. \<not> isin (cell_of (columns df3) r PRIMARY_KEY) existing)
                          (rows df3)\<rparr>)"

definition insert_unique_data ::
  "library \<Rightarrow> connection \<Rightarrow> cell frame \<Rightarrow> connection \<times> message list \<times> exn option"
where
  "insert_unique_data L conn df =
     (if PRIMARY_KEY \<notin> set (clean_column_names (columns df))
      then (conn, [St_error (''Missing primary key column: '' @ PRIMARY_KEY)], None)
      else if 1 < count_list (clean_column_names (columns df)) PRIMARY_KEY
      then (conn, [], Some (AttributeError (conversion_error String)))
      else case table conn of
        None \<Rightarrow> (conn, [], Some (DatabaseError ''Table does not exist''))
      | Some t \<Rightarrow>
          (let new = new_records L t df
           in if rows new = [] then (conn, [St_warning ''No new unique records found.''], None)
              else case insert_data_in_batches conn new 2000 of
                (conn', Some e) \<Rightarrow> (conn', [], Some e)
              | (conn', None) \<Rightarrow>
                  (conn', [St_success (str_nat (length (rows new))
                                       @ '' unique records uploaded successfully.'')], None)))"

section \<open>The import page\<close>

text \<open>\<open>df.fillna("", inplace=True)\<close>\<close>

definition fillna :: "cell frame \<Rightarrow> cell frame" where
  "fillna df = df\<lparr>rows := map (map (\<lambda>x. if notna x then x else Str [])) (rows df)\<rparr>"

definition missing_columns :: "cell frame \<Rightarrow> string list" where
  "missing_columns df = filter (\<lambda>col. col \<notin> set (columns df)) REQUIRED_COLUMNS"

text \<open>
  One run of \<open>import_csv_page\<close>. Its inputs: the uploaded file, as what
  \<open>pd.read_csv(uploaded_file, dtype=str)\<close> does on it (no file; an exception; the frame
  read); whether the button "Upload Data" is pressed; what \<open>get_connection()\<close> returns.
  Its result: the connection after the run and the messages shown (the title, the
  template download and the preview of the frame are not modelled).
  \<^verbatim>\<open>
  df = pd.read_csv(uploaded_file, dtype=str, low_memory=False)
  df.fillna("", inplace=True)
  df.columns = clean_column_names(df.columns)
  df.index = range(1, len(df) + 1)
  missing_columns = [col for col in REQUIRED_COLUMNS if col not in df.columns]
  if missing_columns:
      st.error(f"Invalid file: Missing required columns - {', '.join(missing_columns)}")
      return
  df = enforce_data_types(df)
  st.write(f"Total records: {len(df)}")
  st.success("File loaded successfully!")
  if st.button("Upload Data"):
      connection = get_connection()
      if connection:
          if table_exists(connection, TABLE_NAME):
              insert_unique_data(connection, df)
          else:
              st.error(f"Table `{TABLE_NAME}` does not exist. ...")
          connection.close()
      else:
          st.error("Could not connect to the database.")
  \<close>
  all inside \<open>try\<close> with \<open>except Exception as e: st.error(f"Error loading file: {e}")\<close>.
\<close>

definition cleaned :: "cell frame \<Rightarrow> cell frame" where
  "cleaned df = (fillna df)\<lparr>columns := clean_column_names (columns df)\<rparr>"

definition import_csv_page ::
  "library \<Rightarrow> (exn + cell frame) option \<Rightarrow> bool \<Rightarrow> connection option
     \<Rightarrow> connection option \<times> message list"
where
  "import_csv_page L uploaded_file button get_connection =
     (case uploaded_file of
        None \<Rightarrow> (get_connection, [St_warning ''Please upload a file.''])
      | Some (Inl e) \<Rightarrow> (get_connection, [St_error (''Error loading file: '' @ exn_text e)])
      | Some (Inr df0) \<Rightarrow>
          (let df1 = cleaned df0
           in if missing_columns df1 \<noteq> []
              then (get_connection,
                    [St_error (''Invalid file: Missing required columns - ''
                               @ join '', '' (missing_columns df1))])
              else
                (let (df, warnings) = enforce_data_types L df1;
                     shown = warnings @ [St_write (''Total records: '' @ str_nat (length (rows df))),
                                         St_success ''File loaded successfully!'']
                 in if \<not> button then (get_connection, shown)
                    else case get_connection of
                      None \<Rightarrow> (None, shown @ [St_error ''Could not connect to the database.''])
                    | Some conn \<Rightarrow>
                        if table_exists conn
                        then (case insert_unique_data L conn df of
                                (conn', ms, None) \<Rightarrow> (Some (close conn'), shown @ ms)
                              | (conn', ms, Some e) \<Rightarrow>
                                  (Some conn', shown @ ms
                                     @ [St_error (''Error loading file: '' @ exn_text e)]))
                        else (Some (close conn),
                              shown @ [St_error (''Table `managed_services` does not exist. ''
                                @ ''Please create it manually in the database.'')]))))"

section \<open>Reporting queries\<close>

text \<open>
  Each entry of \<open>QUERIES\<close> has the form
  \<^verbatim>\<open>
  SELECT c, COUNT(*) AS n FROM managed_services
  WHERE c IS NOT NULL AND timestamp BETWEEN %s AND %s
  GROUP BY c ORDER BY n DESC [LIMIT k];
  \<close>
  and is given by the column \<open>c\<close> (under the name the import stores it with; SQL does
  not tell the case of column names apart) and the limit \<open>k\<close>.
\<close>

record query =
  group_by :: string
  limit :: "nat option"

definition QUERIES :: "(string \<times> query) list" where
  "QUERIES =
     [(''processing_tool_usage'', \<lparr>group_by = ''OCR'', limit = None\<rparr>),
      (''top_payers'', \<lparr>group_by = ''Payer'', limit = Some 20\<rparr>),
      (''emea_distribution'', \<lparr>group_by = ''EMEA'', limit = None\<rparr>),
      (''priority_distribution'', \<lparr>group_by = ''Priority'', limit = None\<rparr>),
      (''top_languages'', \<lparr>group_by = ''Foreign Language'', limit = Some 5\<rparr>)]"

text \<open>
  How the server orders the values of the column \<open>timestamp\<close> depends on the type the
  column was created with, which the program does not fix: \<open>sql_time\<close> reads a stored
  value as a point of a linear order, and \<open>NULL\<close> as none. \<open>x BETWEEN a AND b\<close> is
  \<open>a <= x AND x <= b\<close>, and false for \<open>NULL\<close>.
\<close>

definition between :: "(cell \<Rightarrow> 't::linorder option) \<Rightarrow> 't \<Rightarrow> 't \<Rightarrow> stored_row \<Rightarrow> bool" where
  "between sql_time start_date end_date r =
     (case sql_time (field r ''Timestamp'') of
        Some t \<Rightarrow> start_date \<le> t \<and> t \<le> end_date
      | None \<Rightarrow> False)"

definition selected ::
  "(cell \<Rightarrow> 't::linorder option) \<Rightarrow> query \<Rightarrow> 't \<Rightarrow> 't \<Rightarrow> stored_row list \<Rightarrow> stored_row list"
where
  "selected sql_time q start_date end_date t =
     filter (\<lambda>r. field r (group_by q) \<noteq> PyNone \<and> between sql_time start_date end_date r) t"

text \<open>\<open>GROUP BY c\<close> with \<open>COUNT(*)\<close>: one row per value, in the order of first occurrence.\<close>

fun group_count :: "cell list \<Rightarrow> (cell \<times> nat) list" where
  "group_count [] = []"
| "group_count (x # xs) = (x, Suc (length (filter (\<lambda>y. y = x) xs)))
                            # group_count (filter (\<lambda>y. y \<noteq> x) xs)"

definition run_query ::
  "(cell \<Rightarrow> 't::linorder option) \<Rightarrow> query \<Rightarrow> 't \<Rightarrow> 't \<Rightarrow> stored_row list \<Rightarrow> (cell \<times> nat) list"
where
  "run_query sql_time q start_date end_date t =
     (let groups = group_count (map (\<lambda>r. field r (group_by q))
                                    (selected sql_time q start_date end_date t));
          ordered = sort_key (\<lambda>(x, n). - int n) groups
      in case limit q of None \<Rightarrow> ordered | Some k \<Rightarrow> take k ordered)"

text \<open>
  \<^verbatim>\<open>
  def fetch_data(query, start_date, end_date):
      connection = get_connection()
      if not connection:
          return None, "Failed to connect to the database."
      try:
          with connection.cursor(dictionary=True) as cursor:
              cursor.execute(query, (start_date, end_date))
              result = cursor.fetchall()
          return pd.DataFrame(result), None
      except Exception as e:
          return None, str(e)
      finally:
          connection.close()
  \<close>
\<close>

definition fetch_data ::
  "(cell \<Rightarrow> 't::linorder option) \<Rightarrow> connection option \<Rightarrow> query \<Rightarrow> 't \<Rightarrow> 't
     \<Rightarrow> (cell \<times> nat) list option \<times> string option"
where
  "fetch_data sql_time get_connection q start_date end_date =
     (case get_connection of
        None \<Rightarrow> (None, Some ''Failed to connect to the database.'')
      | Some conn \<Rightarrow>
          (case table conn of
             None \<Rightarrow> (None, Some (exn_text (DatabaseError ''Table does not exist'')))
           | Some t \<Rightarrow> (Some (run_query sql_time q start_date end_date t), None)))"

section \<open>Closed forms\<close>

text \<open>
  The loop of \<open>enforce_data_types\<close> visits each key of \<open>COLUMN_DATA_TYPES\<close> once, and
  a visit reads and writes the cells under that key only. So the frame after the loop
  can be given cell by cell: \<open>coerced\<close>, which the loop is proved to compute.
\<close>

definition coerce_cell :: "library \<Rightarrow> cell frame \<Rightarrow> (string \<times> dtype) list \<Rightarrow> string \<Rightarrow> cell \<Rightarrow> cell" where
  "coerce_cell L df items name x =
     (case map_of items name of
        Some d \<Rightarrow> if 1 < count_list (columns df) name then x
                  else convert_cell L d (get_column df name) x
      | None \<Rightarrow> x)"

definition coerced :: "library \<Rightarrow> cell frame \<Rightarrow> (string \<times> dtype) list \<Rightarrow> cell frame" where
  "coerced L df items =
     df\<lparr>rows := map (map_cells (coerce_cell L df items) (columns df)) (rows df)\<rparr>"

definition conversion_warnings :: "cell frame \<Rightarrow> (string \<times> dtype) list \<Rightarrow> message list" where
  "conversion_warnings df items =
     map (\<lambda>(column, d). St_warning (''Could not convert column '' @ column @ '' to ''
                                       @ dtype_name d @ '': '' @ conversion_error d))
         (filter (\<lambda>(column, d). column \<in> set (columns df) \<and> 1 < count_list (columns df) column) items)"

text \<open>
  The round trips a connection completes, of those the loop asks for; and the rows a
  frame puts into the table: one stored row per row, naming the columns of the frame.
\<close>

definition completed :: "nat option \<Rightarrow> 'a list \<Rightarrow> 'a list" where
  "completed budget xs = (case budget of None \<Rightarrow> xs | Some k \<Rightarrow> take k xs)"

definition stored_rows :: "string list \<Rightarrow> cell list list \<Rightarrow> stored_row list" where
  "stored_rows cols rs = map (\<lambda>r. zip cols (to_tuple r)) rs"

text \<open>
  The key cell of a row, its normalized text, the row with its key cell normalized (what
  the assignment to \<open>df[primary_key_col]\<close> makes of it), the stored rows a call of
  \<open>insert_unique_data\<close> adds to the table \<open>t\<close>, and those a run of the import page adds.
  \<open>insert_unique_data\<close> and \<open>import_csv_page\<close> are proved to add exactly these.
\<close>

definition key_of :: "string list \<Rightarrow> cell list \<Rightarrow> cell" where
  "key_of cols r = cell_of cols r PRIMARY_KEY"

definition key_text :: "library \<Rightarrow> string list \<Rightarrow> cell list \<Rightarrow> string" where
  "key_text L cols r = normalize L (key_of cols r)"

definition with_normal_key :: "library \<Rightarrow> string list \<Rightarrow> cell list \<Rightarrow> cell list" where
  "with_normal_key L cols r =
     map_cells (\<lambda>name x. if name = PRIMARY_KEY then Str (normalize L x) else x) cols r"

definition inserted :: "library \<Rightarrow> connection \<Rightarrow> stored_row list \<Rightarrow> cell frame \<Rightarrow> stored_row list" where
  "inserted L conn t df =
     (let new = new_records L t df
      in if count_list (columns new) PRIMARY_KEY = 1 \<and> distinct (columns new)
         then stored_rows (columns new)
                (concat (completed (round_trips conn) (batches (rows new) 2000 0)))
         else [])"

definition imported ::
  "library \<Rightarrow> connection \<Rightarrow> stored_row list \<Rightarrow> (exn + cell frame) option \<Rightarrow> bool \<Rightarrow> stored_row list"
where
  "imported L conn t uploaded_file button =
     (case uploaded_file of
        Some (Inr df0) \<Rightarrow>
          if missing_columns (cleaned df0) = [] \<and> button
          then inserted L conn t (coerced L (cleaned df0) COLUMN_DATA_TYPES)
          else []
      | _ \<Rightarrow> [])"

section \<open>Instances and predicates for the claims\<close>

text \<open>
  A library for the examples: its date parser reads the texts of the form
  \<open>YYYY-MM-DD HH:MM:SS\<close> and nothing else.
\<close>

definition example_library :: library where
  "example_library =
     \<lparr>to_datetime = (\<lambda>col x. case x of
                        Str s \<Rightarrow> if is_ymd_hms s then Some (read_ymd_hms s) else None
                      | _ \<Rightarrow> None),
      str_number = (\<lambda>x. ''0'')\<rparr>"


text \<open>
  A reading of the column \<open>timestamp\<close> for the examples: a text of the form
  \<open>YYYY-MM-DD HH:MM:SS\<close> is read as the number its digits spell, which orders such
  texts by time.
\<close>

definition example_sql_time :: "cell \<Rightarrow> nat option" where
  "example_sql_time x = (case x of
       Str s \<Rightarrow> if is_ymd_hms s then Some (digits_value (filter isdigit_ascii s)) else None
     | _ \<Rightarrow> None)"

text \<open>
  The words of the specification for the deduplication: the normalized \<open>Unique ID\<close> of
  an uploaded row (its key cell as text, trimmed and in lower case) and of a stored row,
  and when the row at the index \<open>i\<close> duplicates an earlier row of the same upload.
\<close>

definition unique_id :: "library \<Rightarrow> string list \<Rightarrow> cell list \<Rightarrow> string" where
  "unique_id L cols r = lower (strip (py_str L (cell_of cols r ''Unique ID'')))"

definition stored_unique_id :: "library \<Rightarrow> stored_row \<Rightarrow> string" where
  "stored_unique_id L s = lower (strip (py_str L (field s ''Unique ID'')))"

definition duplicates_earlier :: "('a \<Rightarrow> 'k) \<Rightarrow> 'a list \<Rightarrow> nat \<Rightarrow> bool" where
  "duplicates_earlier key rs i = (key (rs ! i) \<in> key ` set (take i rs))"

section \<open>Properties of the text functions\<close>

lemma dropWhile_all: "\<forall>c\<in>set p. P c \<Longrightarrow> dropWhile P (p @ s) = dropWhile P s"
  by (induction p) auto

lemma strip_padding:
  assumes "\<forall>c\<in>set p. isspace c" and "\<forall>c\<in>set q. isspace c"
  shows "strip (p @ s @ q) = strip s"
proof -
  have "dropWhile isspace (rev (dropWhile isspace (p @ s @ q)))
        = dropWhile isspace (rev (dropWhile isspace (s @ q)))"
    using assms(1) by (simp add: dropWhile_all)
  also have "\<dots> = dropWhile isspace (rev (dropWhile isspace s))"
  proof (cases "\<forall>c\<in>set s. isspace c")
    case True
    then have a: "dropWhile isspace (s @ q) = []" and b: "dropWhile isspace s = []"
      using assms(2) by auto
    show ?thesis unfolding a b ..
  next
    case False
    then have "dropWhile isspace (s @ q) = dropWhile isspace s @ q"
      by (auto simp: dropWhile_append1)
    then show ?thesis
      using assms(2) by (simp add: dropWhile_all)
  qed
  finally show ?thesis by (simp add: strip_def)
qed

lemma strip_trimmed: "trimmed s \<Longrightarrow> strip s = s"
proof (cases s)
  case Nil
  then show ?thesis by (simp add: strip_def)
next
  case (Cons a as)
  assume "trimmed s"
  with Cons have h: "\<not> isspace (hd s)" and l: "\<not> isspace (last s)"
    by (auto simp: trimmed_def)
  from Cons h have "dropWhile isspace s = s" by simp
  moreover have "hd (rev s) = last s"
    using Cons by (simp only: hd_rev)
  with l have "dropWhile isspace (rev s) = rev s"
    by (simp only: dropWhile_eq_self_iff simp_thms)
  ultimately show ?thesis by (simp add: strip_def)
qed

lemma trimmed_strip: "trimmed (strip s)"
proof (cases "strip s = []")
  case True
  then show ?thesis by (simp add: trimmed_def)
next
  case False
  let ?t = "dropWhile isspace s"
  let ?u = "dropWhile isspace (rev ?t)"
  from False have u: "?u \<noteq> []" by (simp add: strip_def)
  then have "\<not> isspace (hd ?u)" by (simp add: hd_dropWhile)
  then have l: "\<not> isspace (last (strip s))"
    using u by (simp add: strip_def last_rev)
  from u have t: "?t \<noteq> []" by fastforce
  then have ht: "\<not> isspace (hd ?t)" by (simp add: hd_dropWhile)
  obtain v where v: "rev ?t = v @ ?u"
    by (metis takeWhile_dropWhile_id)
  then have "?t = rev ?u @ rev v" by (metis rev_append rev_rev_ident)
  then have "hd ?t = hd (rev ?u)" using u by (metis hd_append2 rev_is_Nil_conv)
  with ht have "\<not> isspace (hd (strip s))" by (simp add: strip_def)
  with l show ?thesis by (simp add: trimmed_def)
qed

lemma isspace_nbsp: "isspace (CHR 0xA0)"
  by (simp add: isspace_def)

lemma replace_nbsp_trimmed: "trimmed s \<Longrightarrow> trimmed (replace_nbsp s)"
proof (cases s)
  case Nil
  then show ?thesis by (simp add: replace_nbsp_def trimmed_def)
next
  case (Cons a as)
  assume "trimmed s"
  with Cons have h: "\<not> isspace (hd s)" and l: "\<not> isspace (last s)"
    by (auto simp: trimmed_def)
  have ne: "s \<noteq> []" using Cons by simp
  have "hd (replace_nbsp s) = hd s"
    using ne h isspace_nbsp by (cases s) (auto simp: replace_nbsp_def)
  moreover have "last (replace_nbsp s) = last s"
    using ne l isspace_nbsp by (auto simp: replace_nbsp_def last_map)
  ultimately show ?thesis
    using h l by (simp add: trimmed_def)
qed

lemma strip_strip: "strip (strip s) = strip s"
  by (simp add: strip_trimmed trimmed_strip)

lemma replace_nbsp_idem: "replace_nbsp (replace_nbsp s) = replace_nbsp s"
  by (simp add: replace_nbsp_def)

lemma clean_column_names_idem:
  "clean_column_names (clean_column_names cols) = clean_column_names cols"
  by (simp add: clean_column_names_def strip_trimmed replace_nbsp_trimmed trimmed_strip
      replace_nbsp_idem)

lemma of_char_lower_char:
  "of_char (lower_char c) = (let n = of_char c :: nat
      in if (65 \<le> n \<and> n \<le> 90) \<or> (192 \<le> n \<and> n \<le> 222 \<and> n \<noteq> 215) then n + 32 else n)"
proof -
  have "(of_char c :: nat) < 256" by (rule nat_of_char_less_256)
  then show ?thesis
    by (auto simp: lower_char_def Let_def)
qed

lemma isspace_lower_char: "isspace (lower_char c) = isspace c"
  by (auto simp: isspace_def of_char_lower_char Let_def)

lemma lower_char_idem: "lower_char (lower_char c) = lower_char c"
proof -
  have "of_char (lower_char (lower_char c)) = (of_char (lower_char c) :: nat)"
    by (subst of_char_lower_char) (auto simp: of_char_lower_char Let_def)
  then show ?thesis by simp
qed

lemma lower_lower: "lower (lower s) = lower s"
  by (simp add: lower_def lower_char_idem)

lemma dropWhile_isspace_lower:
  "dropWhile isspace (lower s) = lower (dropWhile isspace s)"
  by (induction s) (auto simp: lower_def isspace_lower_char)

lemma strip_lower: "strip (lower s) = lower (strip s)"
proof -
  have r: "rev (lower s) = lower (rev s)" for s by (simp add: lower_def rev_map)
  show ?thesis
    by (simp add: strip_def dropWhile_isspace_lower r)
qed

lemma normalize_Str_idem: "normalize L (Str (normalize L x)) = normalize L x"
  by (simp add: normalize_def py_str_def strip_lower strip_strip lower_lower)

lemma join_concat:
  "xs \<noteq> [] \<Longrightarrow> join sep xs = concat (map (\<lambda>x. x @ sep) (butlast xs)) @ last xs"
  by (induction sep xs rule: join.induct) simp_all

section \<open>Properties of the coercion\<close>

lemma map_of_zip_map_cells:
  "map_of (zip cols (map_cells g cols r)) c = map_option (g c) (map_of (zip cols r) c)"
  by (induction g cols r rule: map_cells.induct) auto

lemma map_cells_map_cells:
  "map_cells h cols (map_cells g cols r) = map_cells (\<lambda>n x. h n (g n x)) cols r"
  by (induction g cols r rule: map_cells.induct) auto

lemma map_cells_cong_names:
  "(\<And>n x. n \<in> set cols \<Longrightarrow> g n x = h n x) \<Longrightarrow> map_cells g cols r = map_cells h cols r"
  by (induction g cols r rule: map_cells.induct) auto

lemma map_cells_id: "map_cells (\<lambda>n x. x) cols r = r"
  by (induction "\<lambda>(n :: string) (x :: 'a). x" cols r rule: map_cells.induct) auto

lemma length_map_cells [simp]: "length (map_cells g cols r) = length r"
  by (induction g cols r rule: map_cells.induct) auto

lemma columns_coerced [simp]: "columns (coerced L df items) = columns df"
  by (simp add: coerced_def)

lemma get_column_coerced:
  "map_of items c = None \<Longrightarrow> get_column (coerced L df items) c = get_column df c"
  by (auto simp: get_column_def coerced_def cell_of_def map_of_zip_map_cells coerce_cell_def
           split: option.splits)

lemma coerced_Nil: "coerced L df [] = df"
proof -
  have "coerce_cell L df [] = (\<lambda>n x. x)"
    by (intro ext) (simp add: coerce_cell_def)
  then show ?thesis
    by (simp add: coerced_def map_cells_id [abs_def] cong: map_cong)
qed

lemma enforce_step_coerced:
  assumes "c \<notin> fst ` set done"
  shows "enforce_step L (c, d) (coerced L df done, ws)
         = (coerced L df (done @ [(c, d)]), ws @ conversion_warnings df [(c, d)])"
proof -
  from assms have none: "map_of done c = None" by (simp add: map_of_eq_None_iff)
  have other: "\<And>n x. n \<noteq> c \<Longrightarrow> coerce_cell L df (done @ [(c, d)]) n x = coerce_cell L df done n x"
    by (simp add: coerce_cell_def map_add_def map_of_append split: option.splits)
  have same: "\<And>x. coerce_cell L df done c x = x"
    using none by (simp add: coerce_cell_def)
  show ?thesis
  proof (cases "c \<in> set (columns df)")
    case False
    have "map_cells (coerce_cell L df (done @ [(c, d)])) (columns df) r
          = map_cells (coerce_cell L df done) (columns df) r" for r
    proof (rule map_cells_cong_names)
      fix n x
      assume "n \<in> set (columns df)"
      with False have "n \<noteq> c" by auto
      then show "coerce_cell L df (done @ [(c, d)]) n x = coerce_cell L df done n x"
        by (rule other)
    qed
    then have "coerced L df (done @ [(c, d)]) = coerced L df done"
      by (simp add: coerced_def)
    with False show ?thesis
      by (simp add: enforce_step_def conversion_warnings_def)
  next
    case True
    show ?thesis
    proof (cases "1 < count_list (columns df) c")
      case dup: True
      have "\<And>x. coerce_cell L df (done @ [(c, d)]) c x = x"
        using none dup by (simp add: coerce_cell_def map_of_append map_add_def)
      with other same have "coerce_cell L df (done @ [(c, d)]) = coerce_cell L df done"
        by (intro ext) metis
      then have "coerced L df (done @ [(c, d)]) = coerced L df done"
        by (simp add: coerced_def)
      with True dup show ?thesis
        by (simp add: enforce_step_def conversion_warnings_def)
    next
      case once: False
      have new: "\<And>x. coerce_cell L df (done @ [(c, d)]) c x = convert_cell L d (get_column df c) x"
        using none once by (simp add: coerce_cell_def map_of_append map_add_def)
      have fn: "(\<lambda>n x. if n = c
                       then convert_cell L d (get_column (coerced L df done) c)
                              (coerce_cell L df done n x)
                       else coerce_cell L df done n x)
                = coerce_cell L df (done @ [(c, d)])"
        by (intro ext) (simp add: get_column_coerced [OF none] other same new)
      have "map_column c (convert_cell L d (get_column (coerced L df done) c)) (coerced L df done)
            = coerced L df (done @ [(c, d)])"
        by (simp add: map_column_def coerced_def map_cells_map_cells fn [unfolded coerced_def])
      with True once show ?thesis
        by (simp add: enforce_step_def conversion_warnings_def)
    qed
  qed
qed

lemma fold_enforce_step:
  "distinct (map fst (done @ items)) \<Longrightarrow>
   fold (enforce_step L) items (coerced L df done, ws)
   = (coerced L df (done @ items), ws @ conversion_warnings df items)"
proof (induction items arbitrary: "done" ws)
  case Nil
  then show ?case by (simp add: conversion_warnings_def)
next
  case (Cons item items)
  obtain c d where item: "item = (c, d)" by (cases item)
  from Cons.prems item have c: "c \<notin> fst ` set done" by auto
  from Cons.prems have d: "distinct (map fst ((done @ [item]) @ items))" by simp
  have "conversion_warnings df [(c, d)] @ conversion_warnings df items
        = conversion_warnings df ((c, d) # items)"
    by (simp add: conversion_warnings_def)
  then show ?case
    using Cons.IH [OF d] enforce_step_coerced [OF c] item by simp
qed

lemma distinct_COLUMN_DATA_TYPES: "distinct (map fst COLUMN_DATA_TYPES)"
  by (simp add: COLUMN_DATA_TYPES_def)

lemma enforce_data_types_eq:
  "enforce_data_types L df
   = (coerced L df COLUMN_DATA_TYPES, conversion_warnings df COLUMN_DATA_TYPES)"
  using fold_enforce_step [of "[]" COLUMN_DATA_TYPES L df "[]"] distinct_COLUMN_DATA_TYPES
  by (simp add: enforce_data_types_def coerced_Nil)

lemma xstrtod_12_5: "xstrtod ''12.5'' = Some (25 / 2)"
  by (simp add: xstrtod_def Let_def take_sign_def isspace_ascii_def isdigit_ascii_def
      digits_value_def scale10_def)


lemma to_numeric_12_5: "to_numeric (Str ''12.5'') = Num (25 / 2)"
  by (simp add: to_numeric_def xstrtod_12_5)


lemma floor_12_5: "\<lfloor>25 / 2 :: rat\<rfloor> = 12"
  by (rule floor_unique) simp_all

lemma not_close_12_5: "\<not> close_to_int (Num (25 / 2))"
  by (simp add: close_to_int_def trunc_def floor_12_5)

lemma half_not_int: "(25 / 2 :: rat) \<notin> \<int>"
proof
  assume "(25 / 2 :: rat) \<in> \<int>"
  then obtain k :: int where "(25 / 2 :: rat) = of_int k" by (auto elim: Ints_cases)
  then have "(25 :: rat) = of_int (2 * k)" by simp
  then have "(25 :: int) = 2 * k" by (metis of_int_eq_iff of_int_numeral)
  then show False by presburger
qed

lemma map_cells_eq_map:
  "length r = length cols \<Longrightarrow> map_cells (\<lambda>n. f) cols r = map f r"
  by (induction "\<lambda>(n :: string). f" cols r rule: map_cells.induct) auto

lemma cell_of_map_cells:
  assumes "length r = length cols" and "column \<in> set cols"
  shows "cell_of cols (map_cells g cols r) column = g column (cell_of cols r column)"
proof -
  from assms obtain x where x: "map_of (zip cols r) column = Some x"
    by (metis map_of_zip_is_Some option.exhaust_sel not_Some_eq)
  then show ?thesis
    by (simp add: cell_of_def map_of_zip_map_cells)
qed





section \<open>Properties of the time stamp format\<close>

lemma str_nat_4:
  assumes "1000 \<le> n" and "n < 10000"
  shows "str_nat n = [digit (n div 1000), digit (n div 100), digit (n div 10), digit n]"
proof -
  have q: "n div 1000 < 10" "\<not> n div 100 < 10" "\<not> n div 10 < 10" "\<not> n < 10"
    using assms by (simp_all add: div_less_iff_less_mult)
  have e: "n div 100 div 10 = n div 1000" "n div 10 div 10 = n div 100"
    by (simp_all add: div_mult2_eq [symmetric])
  have m: "n div 1000 mod 10 = n div 1000"
    using q(1) by simp
  have a: "str_nat (n div 1000) = [digit (n div 1000)]"
    using q(1) by (subst str_nat.simps) (simp add: digit_def m)
  have b: "str_nat (n div 100) = [digit (n div 1000), digit (n div 100)]"
    using q(2) by (subst str_nat.simps) (simp add: e a, simp add: digit_def)
  have c: "str_nat (n div 10) = [digit (n div 1000), digit (n div 100), digit (n div 10)]"
    using q(3) by (subst str_nat.simps) (simp add: e b, simp add: digit_def)
  show ?thesis
    using q(4) by (subst str_nat.simps) (simp add: c, simp add: digit_def)
qed

lemma isdigit_digit: "isdigit_ascii (digit n)"
proof -
  have "n mod 10 < 10" by simp
  then show ?thesis
    by (simp add: isdigit_ascii_def digit_def)
qed

lemma of_char_digit: "of_char (digit n) - 48 = n mod 10"
proof -
  have "n mod 10 < 10" by simp
  then show ?thesis by (simp add: digit_def)
qed

lemma digits_value_two:
  assumes "n < 100"
  shows "digits_value (two_digits n) = n"
proof -
  from assms have "n div 10 < 10" by (simp add: div_less_iff_less_mult)
  then have "n div 10 mod 10 = n div 10" by simp
  then have "10 * (n div 10 mod 10) + n mod 10 = n" by simp
  then show ?thesis
    by (simp add: digits_value_def two_digits_def of_char_digit)
qed

lemma digits_value_four:
  assumes "n < 10000"
  shows "digits_value [digit (n div 1000), digit (n div 100), digit (n div 10), digit n] = n"
proof -
  from assms have "n div 1000 < 10" by (simp add: div_less_iff_less_mult)
  then have a: "n div 1000 mod 10 = n div 1000" by simp
  have 3: "10 * (n div 1000) + n div 100 mod 10 = n div 100"
    using mult_div_mod_eq [of 10 "n div 100"] by (simp add: div_mult2_eq [symmetric])
  have 2: "10 * (n div 100) + n div 10 mod 10 = n div 10"
    using mult_div_mod_eq [of 10 "n div 10"] by (simp add: div_mult2_eq [symmetric])
  have "digits_value [digit (n div 1000), digit (n div 100), digit (n div 10), digit n]
        = 10 * (10 * (10 * (n div 1000) + n div 100 mod 10) + n div 10 mod 10) + n mod 10"
    by (simp add: digits_value_def of_char_digit a)
  also have "\<dots> = 10 * (10 * (n div 100) + n div 10 mod 10) + n mod 10"
    by (simp only: 3)
  also have "\<dots> = 10 * (n div 10) + n mod 10"
    by (simp only: 2)
  also have "\<dots> = n" by simp
  finally show ?thesis .
qed

lemma strftime_shape:
  assumes "valid_timestamp t"
  shows "is_ymd_hms (strftime t) \<and> read_ymd_hms (strftime t) = t"
proof -
  from assms have y: "1000 \<le> year t" "year t < 10000"
    and r: "month t < 100" "day t < 100" "hour t < 100" "minute t < 100" "second t < 100"
    by (simp_all add: valid_timestamp_def)
  let ?y = "[digit (year t div 1000), digit (year t div 100), digit (year t div 10),
             digit (year t)]"
  have s: "strftime t =
     ?y @ ''-'' @ two_digits (month t) @ ''-'' @ two_digits (day t) @ '' '' @
     two_digits (hour t) @ '':'' @ two_digits (minute t) @ '':'' @ two_digits (second t)"
    by (simp add: strftime_def str_nat_4 [OF y])
  have l: "length (two_digits n) = 2" for n by (simp add: two_digits_def)
  have d: "list_all isdigit_ascii (two_digits n)" for n
    by (simp add: two_digits_def isdigit_digit)
  have 1: "is_ymd_hms (strftime t)"
    unfolding s by (simp add: is_ymd_hms_def two_digits_def isdigit_digit)
  have p: "take 4 (strftime t) = ?y"
    "take 2 (drop 5 (strftime t)) = two_digits (month t)"
    "take 2 (drop 8 (strftime t)) = two_digits (day t)"
    "take 2 (drop 11 (strftime t)) = two_digits (hour t)"
    "take 2 (drop 14 (strftime t)) = two_digits (minute t)"
    "take 2 (drop 17 (strftime t)) = two_digits (second t)"
    unfolding s by (simp_all add: two_digits_def)
  have 2: "read_ymd_hms (strftime t) = t"
    unfolding read_ymd_hms_def p
    using y r by (simp add: digits_value_two digits_value_four)
  from 1 2 show ?thesis ..
qed

section \<open>Properties of the deduplication\<close>

lemma keep_first_subseq: "subseq (keep_first key seen xs) xs"
  by (induction xs arbitrary: seen) auto

lemma keep_first_keys:
  "key ` set (keep_first key seen xs) = key ` set xs - set seen"
  by (induction xs arbitrary: seen) auto

lemma keep_first_distinct: "distinct (map key (keep_first key seen xs))"
proof (induction xs arbitrary: seen)
  case Nil
  then show ?case by simp
next
  case (Cons x xs)
  have "key x \<notin> key ` set (keep_first key (key x # seen) xs)"
    by (simp add: keep_first_keys)
  with Cons show ?case by simp
qed

lemma keep_first_find:
  "r \<in> set (keep_first key seen xs) \<Longrightarrow> find (\<lambda>x. key x = key r) xs = Some r"
proof (induction xs arbitrary: seen)
  case Nil
  then show ?case by simp
next
  case (Cons x xs)
  show ?case
  proof (cases "key x \<in> set seen")
    case True
    with Cons.prems have r: "r \<in> set (keep_first key seen xs)" by simp
    then have "key r \<in> key ` set xs - set seen"
      using keep_first_keys [of key seen xs] by blast
    with True have "key x \<noteq> key r" by auto
    with Cons.IH [OF r] show ?thesis by simp
  next
    case False
    with Cons.prems consider "r = x" | "r \<in> set (keep_first key (key x # seen) xs)"
      by auto
    then show ?thesis
    proof cases
      case 1
      then show ?thesis by simp
    next
      case 2
      then have "key r \<in> key ` set xs - set (key x # seen)"
        using keep_first_keys [of key "key x # seen" xs] by blast
      then have "key x \<noteq> key r" by auto
      with Cons.IH [OF 2] show ?thesis by simp
    qed
  qed
qed

lemma length_keep_first: "length (keep_first key [] xs) = card (key ` set xs)"
proof -
  have "length (keep_first key [] xs) = length (map key (keep_first key [] xs))" by simp
  also have "\<dots> = card (set (map key (keep_first key [] xs)))"
    by (rule distinct_card [symmetric]) (rule keep_first_distinct)
  also have "\<dots> = card (key ` set xs)"
    using keep_first_keys [of key "[]" xs] by simp
  finally show ?thesis .
qed

lemma keep_first_index:
  "keep_first key seen xs
   = map (\<lambda>i. xs ! i)
       (filter (\<lambda>i. key (xs ! i) \<notin> set seen \<union> key ` set (take i xs)) [0..<length xs])"
proof (induction xs arbitrary: seen)
  case Nil
  then show ?case by simp
next
  case (Cons x xs)
  let ?P = "\<lambda>s i. key (xs ! i) \<notin> set s \<union> key ` set (take i xs)"
  let ?Q = "\<lambda>i. key ((x # xs) ! i) \<notin> set seen \<union> key ` set (take i (x # xs))"
  have up: "[0..<length (x # xs)] = 0 # map Suc [0..<length xs]"
    by (simp add: upt_conv_Cons map_Suc_upt del: upt_Suc)
  have pr: "(\<lambda>i. ?Q (Suc i)) = ?P (key x # seen)"
    by (intro ext) auto
  have "filter ?Q (map Suc [0..<length xs]) = map Suc (filter (\<lambda>i. ?Q (Suc i)) [0..<length xs])"
    by (simp only: filter_map comp_def)
  then have fl: "filter ?Q (map Suc [0..<length xs])
                 = map Suc (filter (?P (key x # seen)) [0..<length xs])"
    unfolding pr .
  have tl: "map (\<lambda>i. (x # xs) ! i) (filter ?Q (map Suc [0..<length xs]))
            = map (\<lambda>i. xs ! i) (filter (?P (key x # seen)) [0..<length xs])"
    unfolding fl by (simp add: comp_def)
  have hd: "?Q 0 \<longleftrightarrow> key x \<notin> set seen" by simp
  have rhs: "map (\<lambda>i. (x # xs) ! i) (filter ?Q [0..<length (x # xs)])
             = (if key x \<in> set seen then [] else [x])
               @ map (\<lambda>i. xs ! i) (filter (?P (key x # seen)) [0..<length xs])"
    unfolding up filter.simps hd using tl by simp
  show ?case
  proof (cases "key x \<in> set seen")
    case True
    then have "?P (key x # seen) = ?P seen" by (intro ext) auto
    with True Cons.IH [of seen] show ?thesis
      unfolding rhs by simp
  next
    case False
    with Cons.IH [of "key x # seen"] show ?thesis
      unfolding rhs by simp
  qed
qed

section \<open>Properties of the insertion\<close>

lemma concat_batches: "0 < batch_size \<Longrightarrow> concat (batches rs batch_size i) = drop i rs"
proof (induction rs batch_size i rule: batches.induct)
  case (1 rs batch_size i)
  show ?case
  proof (cases "i < length rs")
    case True
    with 1 have IH: "concat (batches rs batch_size (i + batch_size)) = drop (i + batch_size) rs"
      by simp
    have a: "drop (i + batch_size) rs = drop batch_size (drop i rs)"
      by (simp add: add.commute)
    have "concat (batches rs batch_size i)
          = take batch_size (drop i rs) @ concat (batches rs batch_size (i + batch_size))"
      using True 1(2) by (subst batches.simps) simp
    also have "\<dots> = take batch_size (drop i rs) @ drop batch_size (drop i rs)"
      by (simp only: IH a)
    also have "\<dots> = drop i rs"
      by (rule append_take_drop_id)
    finally show ?thesis .
  next
    case False
    then show ?thesis by (subst batches.simps) simp
  qed
qed

lemma length_batches_le:
  "b \<in> set (batches rs batch_size i) \<Longrightarrow> 0 < length b \<and> length b \<le> batch_size"
proof (induction rs batch_size i rule: batches.induct)
  case (1 rs batch_size i)
  show ?case
  proof (cases "i < length rs \<and> 0 < batch_size")
    case True
    with 1(2) have "b = take batch_size (drop i rs) \<or> b \<in> set (batches rs batch_size (i + batch_size))"
      by (subst (asm) batches.simps) auto
    then show ?thesis
      using True 1(1) by auto
  next
    case False
    with 1(2) show ?thesis by (subst (asm) batches.simps) auto
  qed
qed

lemma length_batches_butlast:
  "b \<in> set (butlast (batches rs batch_size i)) \<Longrightarrow> length b = batch_size"
proof (induction rs batch_size i rule: batches.induct)
  case (1 rs batch_size i)
  show ?case
  proof (cases "i < length rs \<and> 0 < batch_size")
    case True
    then have eq: "batches rs batch_size i
                   = take batch_size (drop i rs) # batches rs batch_size (i + batch_size)"
      by (subst batches.simps) simp
    show ?thesis
    proof (cases "batches rs batch_size (i + batch_size) = []")
      case True
      with eq 1(2) show ?thesis by simp
    next
      case ne: False
      then have "i + batch_size < length rs"
        by (subst (asm) batches.simps) (auto split: if_splits)
      then have "length (take batch_size (drop i rs)) = batch_size" by simp
      with eq ne 1(2) 1(1) [OF True] show ?thesis by auto
    qed
  next
    case False
    with 1(2) show ?thesis by (subst (asm) batches.simps) auto
  qed
qed

lemma batches_4500:
  assumes "length rs = 4500"
  shows "batches rs 2000 0 = [take 2000 rs, take 2000 (drop 2000 rs), drop 4000 rs]"
proof -
  have 3: "batches rs 2000 6000 = []"
    using assms by (subst batches.simps) simp
  have 2: "batches rs 2000 4000 = [drop 4000 rs]"
    using assms 3 by (subst batches.simps) simp
  have 1: "batches rs 2000 2000 = [take 2000 (drop 2000 rs), drop 4000 rs]"
    using assms 2 by (subst batches.simps) simp
  show ?thesis
    using assms 1 by (subst batches.simps) simp
qed

lemma insert_batches_result:
  assumes "table conn = Some t" and "pending conn = []" and "distinct cols"
  shows "table (fst (insert_batches conn cols rs batch_size i))
           = Some (t @ stored_rows cols (concat (completed (round_trips conn)
                                                   (batches rs batch_size i))))
       \<and> pending (fst (insert_batches conn cols rs batch_size i)) = []
       \<and> (snd (insert_batches conn cols rs batch_size i) = None
            \<longleftrightarrow> (case round_trips conn of None \<Rightarrow> True
                 | Some k \<Rightarrow> length (batches rs batch_size i) \<le> k))"
  using assms
proof (induction conn cols rs batch_size i arbitrary: t rule: insert_batches.induct)
  case (1 conn cols rs batch_size i)
  show ?case
  proof (cases "i < length rs \<and> 0 < batch_size")
    case False
    then have "insert_batches conn cols rs batch_size i = (conn, None)"
      by (subst insert_batches.simps) auto
    moreover from False have "batches rs batch_size i = []"
      by (subst batches.simps) auto
    ultimately show ?thesis using 1(2,3)
      by (simp add: completed_def stored_rows_def split: option.splits)
  next
    case True
    let ?b = "take batch_size (drop i rs)"
    have bs: "batches rs batch_size i = ?b # batches rs batch_size (i + batch_size)"
      using True by (subst batches.simps) simp
    show ?thesis
    proof (cases "round_trips conn = Some 0")
      case zero: True
      with 1(2,4) have "executemany conn cols (map to_tuple ?b)
                        = Inl (DatabaseError ''Lost connection'')"
        by (simp add: executemany_def)
      with True have "insert_batches conn cols rs batch_size i
                      = (conn, Some (DatabaseError ''Lost connection''))"
        by (subst insert_batches.simps) simp
      with zero bs 1(2,3) show ?thesis
        by (simp add: completed_def stored_rows_def)
    next
      case nz: False
      let ?c = "conn\<lparr>pending := pending conn @ map (zip cols) (map to_tuple ?b),
                      round_trips := map_option (\<lambda>n. n - 1) (round_trips conn)\<rparr>"
      from nz 1(2,4) have ex: "executemany conn cols (map to_tuple ?b) = Inr ?c"
        by (simp add: executemany_def)
      with True have step: "insert_batches conn cols rs batch_size i
                            = insert_batches (commit ?c) cols rs batch_size (i + batch_size)"
        by (subst insert_batches.simps) simp
      have t': "table (commit ?c) = Some (t @ stored_rows cols ?b)"
        using 1(2,3) by (simp add: commit_def stored_rows_def)
      have p': "pending (commit ?c) = []" by (simp add: commit_def)
      have r': "round_trips (commit ?c) = map_option (\<lambda>n. n - 1) (round_trips conn)"
        by (simp add: commit_def)
      note IH = 1(1) [OF True ex t' p' 1(4)]
      show ?thesis
      proof (cases "round_trips conn")
        case None
        with IH step bs r' show ?thesis
          by (simp add: completed_def stored_rows_def)
      next
        case (Some k)
        with nz obtain k' where k: "k = Suc k'" by (cases k) auto
        with Some IH step bs r' show ?thesis
          by (simp add: completed_def stored_rows_def)
      qed
    qed
  qed
qed


lemma stored_rows_no_NaN:
  "s \<in> set (stored_rows cols rs) \<Longrightarrow> (name, x) \<in> set s \<Longrightarrow> x \<noteq> NaN"
  by (auto simp: stored_rows_def to_tuple_def notna_def dest!: set_zip_rightD)

lemma to_tuple_values:
  "to_tuple r = map (\<lambda>x. if x = NaN \<or> x = PyNone then PyNone else x) r"
proof -
  have "(\<lambda>x. if notna x then x else PyNone) = (\<lambda>x. if x = NaN \<or> x = PyNone then PyNone else x)"
    by (intro ext) (simp add: notna_def)
  then show ?thesis by (simp add: to_tuple_def)
qed

lemma stored_rows_values:
  "stored_rows cols rs
   = map (\<lambda>r. zip cols (map (\<lambda>x. if x = NaN \<or> x = PyNone then PyNone else x) r)) rs"
  by (simp add: stored_rows_def to_tuple_values)

section \<open>What a run adds to the table\<close>

lemma columns_new_records [simp]:
  "columns (new_records L t df) = clean_column_names (columns df)"
  by (simp add: new_records_def Let_def drop_duplicates_def map_column_def)

lemma rows_new_records:
  "rows (new_records L t df)
   = filter (\<lambda>r. \<not> isin (key_of (clean_column_names (columns df)) r) (existing_records L t))
       (keep_first (key_of (clean_column_names (columns df))) []
          (map (with_normal_key L (clean_column_names (columns df))) (rows df)))"
  by (simp add: new_records_def Let_def drop_duplicates_def map_column_def key_of_def [abs_def]
      with_normal_key_def [abs_def])

lemma length_with_normal_key [simp]: "length (with_normal_key L cols r) = length r"
  by (simp add: with_normal_key_def)

lemma key_of_with_normal_key:
  assumes "length r = length cols" and "PRIMARY_KEY \<in> set cols"
  shows "key_of cols (with_normal_key L cols r) = Str (key_text L cols r)"
  using cell_of_map_cells [OF assms]
  by (simp add: key_of_def with_normal_key_def key_text_def)

lemma cell_of_with_normal_key_other:
  "c \<noteq> PRIMARY_KEY \<Longrightarrow> cell_of cols (with_normal_key L cols r) c = cell_of cols r c"
  by (cases "map_of (zip cols r) c")
     (simp_all add: cell_of_def with_normal_key_def map_of_zip_map_cells)

lemma field_stored:
  assumes "length r = length cols" and "c \<in> set cols"
  shows "field (zip cols (to_tuple r)) c
         = (if notna (cell_of cols r c) then cell_of cols r c else PyNone)"
proof -
  have tt: "to_tuple r = map_cells (\<lambda>n x. if notna x then x else PyNone) cols r"
    using assms(1) by (simp add: to_tuple_def map_cells_eq_map [symmetric])
  from assms obtain x where x: "map_of (zip cols r) c = Some x"
    by (metis map_of_zip_is_Some option.exhaust_sel not_Some_eq)
  then show ?thesis
    unfolding tt by (simp add: field_def cell_of_def map_of_zip_map_cells)
qed

lemma key_text_unique_id: "key_text L cols r = unique_id L cols r"
  by (simp add: key_text_def unique_id_def normalize_def key_of_def PRIMARY_KEY_def)

lemma existing_records_stored: "existing_records L t = map (stored_unique_id L) t"
  by (simp add: existing_records_def stored_unique_id_def normalize_def PRIMARY_KEY_def)

lemma rows_new_records_index:
  assumes "rectangular df" and "PRIMARY_KEY \<in> set (clean_column_names (columns df))"
  shows "rows (new_records L t df)
         = map (\<lambda>i. with_normal_key L (clean_column_names (columns df)) (rows df ! i))
             (filter (\<lambda>i. \<not> duplicates_earlier (unique_id L (clean_column_names (columns df)))
                               (rows df) i
                          \<and> unique_id L (clean_column_names (columns df)) (rows df ! i)
                              \<notin> stored_unique_id L ` set t)
                [0..<length (rows df)])"
proof -
  let ?cols = "clean_column_names (columns df)"
  let ?N = "with_normal_key L ?cols"
  let ?K = "key_of ?cols"
  let ?u = "unique_id L ?cols"
  let ?ys = "map ?N (rows df)"
  let ?n = "length (rows df)"
  have len: "length r = length ?cols" if "r \<in> set (rows df)" for r
    using assms(1) that by (simp add: rectangular_def clean_column_names_def)
  have KN: "?K (?N r) = Str (?u r)" if "r \<in> set (rows df)" for r
    using key_of_with_normal_key [OF len [OF that] assms(2)]
    by (simp add: key_text_unique_id)
  have img: "?K ` set (take i ?ys) = Str ` ?u ` set (take i (rows df))" for i
  proof -
    have "?K ` set (take i ?ys) = (\<lambda>r. ?K (?N r)) ` set (take i (rows df))"
      by (simp add: take_map image_image)
    also have "\<dots> = (\<lambda>r. Str (?u r)) ` set (take i (rows df))"
      by (rule image_cong [OF refl]) (auto dest: in_set_takeD intro: KN)
    finally show ?thesis by (simp add: image_image)
  qed
  have first: "(?K (?ys ! i) \<notin> set [] \<union> ?K ` set (take i ?ys))
               = (\<not> duplicates_earlier ?u (rows df) i)" if "i < ?n" for i
  proof -
    from that have "?K (?ys ! i) = Str (?u (rows df ! i))"
      by (simp add: KN)
    then show ?thesis
      unfolding img duplicates_earlier_def by auto
  qed
  have kf: "keep_first ?K [] ?ys
            = map (\<lambda>i. ?N (rows df ! i))
                (filter (\<lambda>i. \<not> duplicates_earlier ?u (rows df) i) [0..<?n])"
  proof -
    have "keep_first ?K [] ?ys
          = map (\<lambda>i. ?ys ! i)
              (filter (\<lambda>i. ?K (?ys ! i) \<notin> set [] \<union> ?K ` set (take i ?ys)) [0..<length ?ys])"
      by (rule keep_first_index)
    also have "\<dots> = map (\<lambda>i. ?ys ! i)
              (filter (\<lambda>i. \<not> duplicates_earlier ?u (rows df) i) [0..<?n])"
    proof -
      have "filter (\<lambda>i. ?K (?ys ! i) \<notin> set [] \<union> ?K ` set (take i ?ys)) [0..<?n]
            = filter (\<lambda>i. \<not> duplicates_earlier ?u (rows df) i) [0..<?n]"
        by (rule filter_cong [OF refl]) (simp only: first set_upt atLeastLessThan_iff)
      then show ?thesis by (simp only: length_map)
    qed
    also have "\<dots> = map (\<lambda>i. ?N (rows df ! i))
              (filter (\<lambda>i. \<not> duplicates_earlier ?u (rows df) i) [0..<?n])"
      by (rule map_cong [OF refl]) simp
    finally show ?thesis .
  qed
  have ex: "(\<not> isin (?K (?N (rows df ! i))) (existing_records L t))
            = (?u (rows df ! i) \<notin> stored_unique_id L ` set t)" if "i < ?n" for i
    using that by (simp add: KN isin_def existing_records_stored)
  have "rows (new_records L t df)
        = filter (\<lambda>r. \<not> isin (?K r) (existing_records L t)) (keep_first ?K [] ?ys)"
    by (rule rows_new_records)
  also have "\<dots> = map (\<lambda>i. ?N (rows df ! i))
        (filter (\<lambda>i. \<not> isin (?K (?N (rows df ! i))) (existing_records L t))
           (filter (\<lambda>i. \<not> duplicates_earlier ?u (rows df) i) [0..<?n]))"
    unfolding kf by (simp only: filter_map comp_def)
  also have "filter (\<lambda>i. \<not> isin (?K (?N (rows df ! i))) (existing_records L t))
           (filter (\<lambda>i. \<not> duplicates_earlier ?u (rows df) i) [0..<?n])
        = filter (\<lambda>i. \<not> duplicates_earlier ?u (rows df) i
                        \<and> ?u (rows df ! i) \<notin> stored_unique_id L ` set t) [0..<?n]"
    unfolding filter_filter
    by (rule filter_cong [OF refl]) (auto simp: ex)
  finally show ?thesis .
qed

lemma completed_Nil: "completed budget [] = []"
  by (cases budget) (simp_all add: completed_def)

lemma batches_Nil: "batches [] batch_size i = []"
  by (subst batches.simps) simp

lemma insert_batches_not_distinct:
  "\<not> distinct cols \<Longrightarrow> table conn = Some t \<Longrightarrow>
   fst (insert_batches conn cols rs batch_size i) = conn"
  by (subst insert_batches.simps) (simp add: executemany_def)

lemma insert_unique_data_table:
  assumes "table conn = Some t" and "pending conn = []"
  shows "table (fst (insert_unique_data L conn df)) = Some (t @ inserted L conn t df)
       \<and> pending (fst (insert_unique_data L conn df)) = []"
proof -
  let ?cols = "clean_column_names (columns df)"
  let ?new = "new_records L t df"
  consider (absent) "PRIMARY_KEY \<notin> set ?cols"
    | (twice) "PRIMARY_KEY \<in> set ?cols" "1 < count_list ?cols PRIMARY_KEY"
    | (once) "PRIMARY_KEY \<in> set ?cols" "count_list ?cols PRIMARY_KEY = 1"
    by (metis count_list_0_iff less_one linorder_neqE_nat not_less_eq Suc_lessI One_nat_def)
  then show ?thesis
  proof cases
    case absent
    then have "count_list ?cols PRIMARY_KEY = 0" by (simp add: count_list_0_iff)
    then have "inserted L conn t df = []" by (simp add: inserted_def)
    with absent assms show ?thesis by (simp add: insert_unique_data_def)
  next
    case twice
    then have "inserted L conn t df = []" by (simp add: inserted_def)
    with twice assms show ?thesis by (simp add: insert_unique_data_def)
  next
    case once
    then have n1: "\<not> 1 < count_list ?cols PRIMARY_KEY" by simp
    show ?thesis
    proof (cases "rows ?new = []")
      case True
      then have "inserted L conn t df = []"
        by (simp add: inserted_def Let_def batches_Nil completed_Nil stored_rows_def)
      with True once n1 assms show ?thesis
        by (simp add: insert_unique_data_def Let_def)
    next
      case False
      have idb: "insert_data_in_batches conn ?new 2000
                 = insert_batches conn ?cols (rows ?new) 2000 0"
        by (simp add: insert_data_in_batches_def)
      have fst_eq: "fst (insert_unique_data L conn df)
                    = fst (insert_batches conn ?cols (rows ?new) 2000 0)"
        using False once n1 assms idb
        by (simp add: insert_unique_data_def Let_def split: prod.splits option.splits)
      show ?thesis
      proof (cases "distinct ?cols")
        case True
        with once have ins: "inserted L conn t df
            = stored_rows ?cols (concat (completed (round_trips conn)
                                           (batches (rows ?new) 2000 0)))"
          by (simp add: inserted_def)
        from insert_batches_result [OF assms True, of "rows ?new" 2000 0]
        show ?thesis unfolding fst_eq ins by blast
      next
        case nd: False
        then have "inserted L conn t df = []" by (simp add: inserted_def)
        with insert_batches_not_distinct [OF nd assms(1)] assms show ?thesis
          unfolding fst_eq by simp
      qed
    qed
  qed
qed

lemma import_csv_page_table:
  assumes "table conn = Some t" and "pending conn = []"
  shows "\<exists>conn' ms. import_csv_page L uploaded_file button (Some conn) = (Some conn', ms)
           \<and> table conn' = Some (t @ imported L conn t uploaded_file button)"
proof (cases uploaded_file)
  case None
  with assms show ?thesis by (simp add: import_csv_page_def imported_def)
next
  case (Some u)
  show ?thesis
  proof (cases u)
    case (Inl e)
    with Some assms show ?thesis by (simp add: import_csv_page_def imported_def)
  next
    case (Inr df0)
    let ?df = "coerced L (cleaned df0) COLUMN_DATA_TYPES"
    show ?thesis
    proof (cases "missing_columns (cleaned df0) = [] \<and> button")
      case False
      with Some Inr assms show ?thesis
        by (auto simp: import_csv_page_def imported_def Let_def enforce_data_types_eq)
    next
      case True
      then have im: "imported L conn t uploaded_file button = inserted L conn t ?df"
        using Some Inr by (simp add: imported_def)
      note iu = insert_unique_data_table [OF assms, of L ?df]
      obtain c' ms e where r: "insert_unique_data L conn ?df = (c', ms, e)"
        by (cases "insert_unique_data L conn ?df") auto
      with iu have c': "table c' = Some (t @ inserted L conn t ?df)" "pending c' = []"
        by simp_all
      from assms have te: "table_exists conn" by (simp add: table_exists_def)
      show ?thesis
        using True Some Inr te r c' im
        by (cases e)
           (simp_all add: import_csv_page_def Let_def enforce_data_types_eq close_def)
    qed
  qed
qed

lemma completed_prefix: "prefix (concat (completed budget xss)) (concat xss)"
proof (cases budget)
  case None
  then show ?thesis by (simp add: completed_def)
next
  case (Some k)
  have "concat xss = concat (take k xss) @ concat (drop k xss)"
    by (metis append_take_drop_id concat_append)
  with Some show ?thesis by (simp add: completed_def prefix_def)
qed

lemma committed_take:
  "\<exists>m. concat (completed budget (batches rs 2000 0)) = take m rs"
proof -
  have "prefix (concat (completed budget (batches rs 2000 0))) rs"
    using completed_prefix [of budget "batches rs 2000 0"] concat_batches [of 2000 rs 0]
    by simp
  then obtain zs where "rs = concat (completed budget (batches rs 2000 0)) @ zs"
    by (auto simp: prefix_def)
  then have "take (length (concat (completed budget (batches rs 2000 0)))) rs
             = concat (completed budget (batches rs 2000 0))"
    by (metis append_eq_conv_conj)
  then show ?thesis by metis
qed

lemma insert_batches_not_distinct_exn:
  "\<not> distinct cols \<Longrightarrow> table conn = Some t \<Longrightarrow> rs \<noteq> [] \<Longrightarrow>
   snd (insert_batches conn cols rs 2000 0) \<noteq> None"
  by (subst insert_batches.simps) (simp add: executemany_def)

lemma stored_key:
  assumes "length r = length cols" and "PRIMARY_KEY \<in> set cols"
  shows "field (zip cols (to_tuple (with_normal_key L cols r))) ''Unique ID''
         = Str (unique_id L cols r)"
proof -
  have l: "length (with_normal_key L cols r) = length cols"
    using assms(1) by simp
  have "field (zip cols (to_tuple (with_normal_key L cols r))) PRIMARY_KEY
        = Str (key_text L cols r)"
    using field_stored [OF l assms(2)] key_of_with_normal_key [OF assms, of L]
    by (simp add: key_of_def notna_def)
  then show ?thesis
    by (simp add: key_text_unique_id PRIMARY_KEY_def)
qed

lemma stored_other:
  assumes "length r = length cols" and "c \<in> set cols" and "c \<noteq> PRIMARY_KEY"
  shows "field (zip cols (to_tuple (with_normal_key L cols r))) c
         = (if cell_of cols r c = NaN \<or> cell_of cols r c = PyNone then PyNone
            else cell_of cols r c)"
proof -
  have l: "length (with_normal_key L cols r) = length cols"
    using assms(1) by simp
  show ?thesis
    using field_stored [OF l assms(2)] cell_of_with_normal_key_other [OF assms(3), of cols L r]
    by (simp add: notna_def)
qed

lemma stored_rows_map:
  "stored_rows cols (map f idx) = map (\<lambda>i. zip cols (to_tuple (f i))) idx"
  by (simp add: stored_rows_def)

lemma insert_unique_data_no_exn:
  assumes "table conn = Some t" and "pending conn = []"
    and "PRIMARY_KEY \<in> set (clean_column_names (columns df))"
    and "snd (snd (insert_unique_data L conn df)) = None"
  shows "table (fst (insert_unique_data L conn df))
         = Some (t @ stored_rows (clean_column_names (columns df)) (rows (new_records L t df)))
       \<and> fst (snd (insert_unique_data L conn df))
         = (if rows (new_records L t df) = [] then [St_warning ''No new unique records found.'']
            else [St_success (str_nat (length (rows (new_records L t df)))
                              @ '' unique records uploaded successfully.'')])"
proof -
  let ?cols = "clean_column_names (columns df)"
  let ?new = "new_records L t df"
  have n1: "\<not> 1 < count_list ?cols PRIMARY_KEY"
    using assms(1,3,4) by (auto simp: insert_unique_data_def)
  show ?thesis
  proof (cases "rows ?new = []")
    case True
    with assms n1 show ?thesis
      by (simp add: insert_unique_data_def Let_def stored_rows_def)
  next
    case False
    let ?ib = "insert_batches conn ?cols (rows ?new) 2000 0"
    have idb: "insert_data_in_batches conn ?new 2000 = ?ib"
      by (simp add: insert_data_in_batches_def)
    have iu: "insert_unique_data L conn df
              = (case ?ib of
                   (conn', Some e) \<Rightarrow> (conn', [], Some e)
                 | (conn', None) \<Rightarrow>
                     (conn', [St_success (str_nat (length (rows ?new))
                                          @ '' unique records uploaded successfully.'')], None))"
      using False assms(1,3) n1 idb by (simp add: insert_unique_data_def Let_def)
    obtain c' e where ib: "?ib = (c', e)" by (cases ?ib)
    with iu assms(4) have e: "e = None" by (cases e) simp_all
    have d: "distinct ?cols"
    proof (rule ccontr)
      assume "\<not> distinct ?cols"
      from insert_batches_not_distinct_exn [OF this assms(1) False] ib e
      show False by simp
    qed
    note r = insert_batches_result [OF assms(1,2) d, of "rows ?new" 2000 0]
    from r ib e have k: "case round_trips conn of None \<Rightarrow> True
                         | Some k \<Rightarrow> length (batches (rows ?new) 2000 0) \<le> k"
      by simp
    then have "completed (round_trips conn) (batches (rows ?new) 2000 0)
               = batches (rows ?new) 2000 0"
      by (cases "round_trips conn") (simp_all add: completed_def)
    then have "concat (completed (round_trips conn) (batches (rows ?new) 2000 0)) = rows ?new"
      using concat_batches [of 2000 "rows ?new" 0] by simp
    with r ib have "table c' = Some (t @ stored_rows ?cols (rows ?new))" by simp
    with iu ib e False show ?thesis by simp
  qed
qed

lemma insert_unique_data_take:
  assumes "table conn = Some t" and "pending conn = []"
  shows "\<exists>m. table (fst (insert_unique_data L conn df))
            = Some (t @ stored_rows (clean_column_names (columns df))
                          (take m (rows (new_records L t df))))
           \<and> (PRIMARY_KEY \<notin> set (clean_column_names (columns df)) \<longrightarrow> m = 0)"
proof -
  let ?cols = "clean_column_names (columns df)"
  let ?new = "new_records L t df"
  note tb = insert_unique_data_table [OF assms, of L df]
  show ?thesis
  proof (cases "count_list ?cols PRIMARY_KEY = 1 \<and> distinct ?cols")
    case True
    then have mem: "PRIMARY_KEY \<in> set ?cols"
      by (metis count_list_0_iff zero_neq_one)
    from committed_take [of "round_trips conn" "rows ?new"]
    obtain m where m: "concat (completed (round_trips conn) (batches (rows ?new) 2000 0))
                       = take m (rows ?new)" by blast
    from True have "inserted L conn t df = stored_rows ?cols (take m (rows ?new))"
      by (simp add: inserted_def m)
    with tb mem show ?thesis by auto
  next
    case False
    then have "inserted L conn t df = stored_rows ?cols (take 0 (rows ?new))"
      by (auto simp: inserted_def stored_rows_def)
    with tb show ?thesis by (intro exI [of _ 0]) simp
  qed
qed

lemma insert_unique_data_completes:
  assumes "table conn = Some t" and "pending conn = []" and "round_trips conn = None"
    and "count_list (clean_column_names (columns df)) PRIMARY_KEY = 1"
    and "distinct (clean_column_names (columns df))"
  shows "snd (snd (insert_unique_data L conn df)) = None"
proof -
  let ?cols = "clean_column_names (columns df)"
  let ?new = "new_records L t df"
  from assms(4) have mem: "PRIMARY_KEY \<in> set ?cols"
    by (metis count_list_0_iff zero_neq_one)
  show ?thesis
  proof (cases "rows ?new = []")
    case True
    with assms mem show ?thesis by (simp add: insert_unique_data_def Let_def)
  next
    case False
    let ?ib = "insert_batches conn ?cols (rows ?new) 2000 0"
    from insert_batches_result [OF assms(1,2,5), of "rows ?new" 2000 0] assms(3)
    have "snd ?ib = None" by simp
    then obtain c' where "?ib = (c', None)" by (cases ?ib) auto
    with False assms mem show ?thesis
      by (simp add: insert_unique_data_def Let_def insert_data_in_batches_def)
  qed
qed

lemma stored_row_explicit:
  "zip cols (to_tuple (with_normal_key L cols r))
   = zip cols (map (\<lambda>x. if x = NaN \<or> x = PyNone then PyNone else x)
        (map_cells (\<lambda>name x. if name = ''Unique ID'' then Str (lower (strip (py_str L x)))
                                else x) cols r))"
  unfolding to_tuple_values with_normal_key_def PRIMARY_KEY_def normalize_def ..

lemma insert_unique_data_explicit:
  assumes "table conn = Some t" and "pending conn = []" and "rectangular df"
    and "''Unique ID'' \<in> set (clean_column_names (columns df))"
    and "snd (snd (insert_unique_data L conn df)) = None"
  shows "table (fst (insert_unique_data L conn df))
         = Some (t @ map (\<lambda>i. zip (clean_column_names (columns df))
                   (map (\<lambda>x. if x = NaN \<or> x = PyNone then PyNone else x)
                      (map_cells (\<lambda>name x. if name = ''Unique ID''
                                     then Str (lower (strip (py_str L x))) else x)
                         (clean_column_names (columns df)) (rows df ! i))))
             (filter (\<lambda>i. \<not> duplicates_earlier (unique_id L (clean_column_names (columns df)))
                               (rows df) i
                          \<and> unique_id L (clean_column_names (columns df)) (rows df ! i)
                              \<notin> stored_unique_id L ` set t)
                [0..<length (rows df)]))
       \<and> length (rows (new_records L t df))
         = length (filter (\<lambda>i. \<not> duplicates_earlier (unique_id L (clean_column_names (columns df)))
                               (rows df) i
                          \<and> unique_id L (clean_column_names (columns df)) (rows df ! i)
                              \<notin> stored_unique_id L ` set t)
                [0..<length (rows df)])"
proof -
  have mem: "PRIMARY_KEY \<in> set (clean_column_names (columns df))"
    using assms(4) by (simp add: PRIMARY_KEY_def)
  note ne = insert_unique_data_no_exn [OF assms(1,2) mem assms(5)]
  note ix = rows_new_records_index [OF assms(3) mem, of L t]
  have l: "length (rows (new_records L t df))
         = length (filter (\<lambda>i. \<not> duplicates_earlier (unique_id L (clean_column_names (columns df)))
                               (rows df) i
                          \<and> unique_id L (clean_column_names (columns df)) (rows df ! i)
                              \<notin> stored_unique_id L ` set t)
                [0..<length (rows df)])"
    unfolding ix by simp
  from ne have "table (fst (insert_unique_data L conn df))
         = Some (t @ stored_rows (clean_column_names (columns df)) (rows (new_records L t df)))"
    by (rule conjunct1)
  then show ?thesis
    unfolding ix stored_rows_map stored_row_explicit using l [unfolded ix] by simp
qed

lemma length_filter_split:
  "int (length (filter (\<lambda>i. \<not> P i \<and> \<not> Q i) xs))
   = int (length xs) - int (length (filter P xs)) - int (length (filter (\<lambda>i. \<not> P i \<and> Q i) xs))"
proof -
  have a: "length (filter P xs) + length (filter (\<lambda>i. \<not> P i) xs) = length xs"
    by (rule sum_length_filter_compl)
  have b: "length (filter Q (filter (\<lambda>i. \<not> P i) xs))
           + length (filter (\<lambda>i. \<not> Q i) (filter (\<lambda>i. \<not> P i) xs))
           = length (filter (\<lambda>i. \<not> P i) xs)"
    by (rule sum_length_filter_compl)
  have c: "filter Q (filter (\<lambda>i. \<not> P i) xs) = filter (\<lambda>i. \<not> P i \<and> Q i) xs"
    "filter (\<lambda>i. \<not> Q i) (filter (\<lambda>i. \<not> P i) xs) = filter (\<lambda>i. \<not> P i \<and> \<not> Q i) xs"
    by (simp_all add: conj_commute)
  from a b show ?thesis unfolding c by linarith
qed

lemma upt_small: "[0..<4] = [0, 1, 2, 3]" "[0..<2] = [0, 1]" "[0..<3] = [0, 1, 2]" "[0..<1] = [0]"
  by (simp_all add: upt_rec)

lemma kept_keys_distinct:
  "distinct (map (\<lambda>i. key (rs ! i))
               (filter (\<lambda>i. \<not> duplicates_earlier key rs i \<and> Q i) [0..<length rs]))"
proof -
  let ?I = "filter (\<lambda>i. \<not> duplicates_earlier key rs i \<and> Q i) [0..<length rs]"
  have later: False
    if "i < j" "j < length rs" "key (rs ! i) = key (rs ! j)" "\<not> duplicates_earlier key rs j"
    for i j
  proof -
    from that(1,2) have "rs ! i \<in> set (take j rs)"
      by (metis in_set_conv_nth length_take min.absorb2 nth_take less_imp_le_nat)
    then have "key (rs ! i) \<in> key ` set (take j rs)" by (rule imageI)
    with that(3,4) show False by (simp add: duplicates_earlier_def)
  qed
  have "inj_on (\<lambda>i. key (rs ! i)) (set ?I)"
  proof (rule inj_onI)
    fix i j assume i: "i \<in> set ?I" and j: "j \<in> set ?I" and e: "key (rs ! i) = key (rs ! j)"
    from i j have b: "i < length rs" "j < length rs"
      and d: "\<not> duplicates_earlier key rs i" "\<not> duplicates_earlier key rs j" by auto
    show "i = j"
    proof (rule ccontr)
      assume "i \<noteq> j"
      then consider "i < j" | "j < i" by (metis linorder_neqE_nat)
      then show False
      proof cases
        case 1
        from later [OF 1 b(2) e d(2)] show False .
      next
        case 2
        from later [OF 2 b(1) e [symmetric] d(1)] show False .
      qed
    qed
  qed
  moreover have "distinct ?I" by simp
  ultimately show ?thesis by (simp add: distinct_map)
qed

lemma unique_id_idem: "lower (strip (lower (strip s))) = lower (strip s)"
  by (simp add: strip_lower strip_strip lower_lower)

lemma stored_unique_id_stored:
  assumes "length r = length cols" and "PRIMARY_KEY \<in> set cols"
  shows "stored_unique_id L (zip cols (to_tuple (with_normal_key L cols r)))
         = unique_id L cols r"
  unfolding stored_unique_id_def stored_key [OF assms]
  by (simp add: py_str_def unique_id_def unique_id_idem)

lemma stored_keys_kept:
  assumes "rectangular df" and "PRIMARY_KEY \<in> set (clean_column_names (columns df))"
    and "set idx \<subseteq> {..<length (rows df)}"
  shows "map (stored_unique_id L)
           (map (\<lambda>i. zip (clean_column_names (columns df))
                        (to_tuple (with_normal_key L (clean_column_names (columns df))
                                     (rows df ! i)))) idx)
         = map (\<lambda>i. unique_id L (clean_column_names (columns df)) (rows df ! i)) idx"
proof -
  have len: "length (rows df ! i) = length (clean_column_names (columns df))"
    if "i \<in> set idx" for i
  proof -
    from that assms(3) have "rows df ! i \<in> set (rows df)" by auto
    with assms(1) show ?thesis by (simp add: rectangular_def clean_column_names_def)
  qed
  show ?thesis
    by (simp add: stored_unique_id_stored [OF len assms(2)])
qed

lemma table_keys_distinct:
  assumes "rectangular df" and "PRIMARY_KEY \<in> set (clean_column_names (columns df))"
    and "distinct (map (stored_unique_id L) t)"
  shows "distinct (map (stored_unique_id L)
           (t @ map (\<lambda>i. zip (clean_column_names (columns df))
                        (to_tuple (with_normal_key L (clean_column_names (columns df))
                                     (rows df ! i))))
                  (filter (\<lambda>i. \<not> duplicates_earlier
                                     (unique_id L (clean_column_names (columns df))) (rows df) i
                              \<and> unique_id L (clean_column_names (columns df)) (rows df ! i)
                                  \<notin> stored_unique_id L ` set t)
                     [0..<length (rows df)])))"
proof -
  let ?cols = "clean_column_names (columns df)"
  let ?I = "filter (\<lambda>i. \<not> duplicates_earlier (unique_id L ?cols) (rows df) i
                          \<and> unique_id L ?cols (rows df ! i) \<notin> stored_unique_id L ` set t)
              [0..<length (rows df)]"
  have sub: "set ?I \<subseteq> {..<length (rows df)}" by auto
  note k = stored_keys_kept [OF assms(1,2) sub, of L]
  have d: "distinct (map (\<lambda>i. unique_id L ?cols (rows df ! i)) ?I)"
    by (rule kept_keys_distinct)
  have dis: "set (map (stored_unique_id L) t)
             \<inter> set (map (\<lambda>i. unique_id L ?cols (rows df ! i)) ?I) = {}"
    by (auto simp: image_iff)
  show ?thesis
    unfolding map_append k using assms(3) d dis by (simp only: distinct_append simp_thms)
qed

lemma second_run_nothing_new:
  assumes "rectangular df" and "PRIMARY_KEY \<in> set (clean_column_names (columns df))"
  shows "rows (new_records L
                 (t @ stored_rows (clean_column_names (columns df)) (rows (new_records L t df)))
                 df) = []"
proof -
  let ?cols = "clean_column_names (columns df)"
  let ?u = "unique_id L ?cols"
  let ?I = "filter (\<lambda>i. \<not> duplicates_earlier ?u (rows df) i
                          \<and> ?u (rows df ! i) \<notin> stored_unique_id L ` set t)
              [0..<length (rows df)]"
  let ?t2 = "t @ stored_rows ?cols (rows (new_records L t df))"
  have sub: "set ?I \<subseteq> {..<length (rows df)}" by auto
  have st: "stored_rows ?cols (rows (new_records L t df))
            = map (\<lambda>i. zip ?cols (to_tuple (with_normal_key L ?cols (rows df ! i)))) ?I"
    unfolding rows_new_records_index [OF assms, of L t] stored_rows_map ..
  have keys: "stored_unique_id L ` set ?t2
              = stored_unique_id L ` set t \<union> (\<lambda>i. ?u (rows df ! i)) ` set ?I"
  proof -
    have "stored_unique_id L ` set (stored_rows ?cols (rows (new_records L t df)))
          = set (map (stored_unique_id L)
                   (map (\<lambda>i. zip ?cols (to_tuple (with_normal_key L ?cols (rows df ! i)))) ?I))"
      unfolding st by (simp only: set_map)
    also have "\<dots> = (\<lambda>i. ?u (rows df ! i)) ` set ?I"
      unfolding stored_keys_kept [OF assms sub, of L] by (simp only: set_map)
    finally show ?thesis by (simp add: image_Un)
  qed
  have "filter (\<lambda>i. \<not> duplicates_earlier ?u (rows df) i
                     \<and> ?u (rows df ! i) \<notin> stored_unique_id L ` set ?t2)
          [0..<length (rows df)] = []"
    unfolding keys by (auto simp: filter_empty_conv)
  then show ?thesis
    unfolding rows_new_records_index [OF assms, of L ?t2] by simp
qed

section \<open>Properties of the queries\<close>

lemma group_count_counts:
  "(y, n) \<in> set (group_count xs) \<Longrightarrow> n = length (filter (\<lambda>z. z = y) xs) \<and> y \<in> set xs"
proof (induction xs arbitrary: y n rule: group_count.induct)
  case 1
  then show ?case by simp
next
  case (2 x xs)
  from "2.prems" consider "y = x" "n = Suc (length (filter (\<lambda>z. z = x) xs))"
    | "(y, n) \<in> set (group_count (filter (\<lambda>z. z \<noteq> x) xs))"
    by auto
  then show ?case
  proof cases
    case 1
    then show ?thesis by simp
  next
    case 2
    from "2.IH" [OF 2] have n: "n = length (filter (\<lambda>z. z = y) (filter (\<lambda>z. z \<noteq> x) xs))"
      and y: "y \<in> set (filter (\<lambda>z. z \<noteq> x) xs)" by blast+
    from y have ne: "y \<noteq> x" and mem: "y \<in> set xs" by auto
    have "filter (\<lambda>z. z = y) (filter (\<lambda>z. z \<noteq> x) xs) = filter (\<lambda>z. z = y) xs"
      using ne by (auto intro: filter_cong)
    with n ne mem show ?thesis by auto
  qed
qed

lemma fst_group_count: "fst ` set (group_count xs) = set xs"
proof (induction xs rule: group_count.induct)
  case 1
  then show ?case by simp
next
  case (2 x xs)
  then show ?case by auto
qed

lemma distinct_group_count: "distinct (map fst (group_count xs))"
proof (induction xs rule: group_count.induct)
  case 1
  then show ?case by simp
next
  case (2 x xs)
  have "x \<notin> fst ` set (group_count (filter (\<lambda>z. z \<noteq> x) xs))"
    by (simp add: fst_group_count)
  with 2 show ?case by simp
qed

lemma distinct_map_fst_sort_key:
  "distinct (map fst xs) \<Longrightarrow> distinct (map fst (sort_key k xs))"
  by (simp add: distinct_map)

lemma set_run_query_subset:
  "set (run_query sql_time q start_date end_date t)
   \<subseteq> set (group_count (map (\<lambda>r. field r (group_by q))
                               (selected sql_time q start_date end_date t)))"
  by (auto simp: run_query_def Let_def split: option.splits dest: in_set_takeD)

lemma set_run_query_all:
  "limit q = None \<Longrightarrow>
   set (run_query sql_time q start_date end_date t)
   = set (group_count (map (\<lambda>r. field r (group_by q))
                           (selected sql_time q start_date end_date t)))"
  by (simp add: run_query_def Let_def)

lemma distinct_run_query:
  "distinct (map fst (run_query sql_time q start_date end_date t))"
proof -
  let ?g = "group_count (map (\<lambda>r. field r (group_by q))
                             (selected sql_time q start_date end_date t))"
  have d: "distinct (map fst (sort_key (\<lambda>(x, n). - int n) ?g))"
    by (rule distinct_map_fst_sort_key) (rule distinct_group_count)
  then have "distinct (map fst (take k (sort_key (\<lambda>(x, n). - int n) ?g)))" for k
    by (simp add: take_map [symmetric] distinct_take)
  with d show ?thesis
    by (simp add: run_query_def Let_def split: option.splits)
qed

lemma sorted_run_query:
  "sorted (map (\<lambda>(x, n). - int n) (run_query sql_time q start_date end_date t))"
proof -
  let ?g = "group_count (map (\<lambda>r. field r (group_by q))
                             (selected sql_time q start_date end_date t))"
  have s: "sorted (map (\<lambda>(x, n). - int n) (sort_key (\<lambda>(x, n). - int n) ?g))"
    by (rule sorted_sort_key)
  then have "sorted (map (\<lambda>(x, n). - int n) (take k (sort_key (\<lambda>(x, n). - int n) ?g)))" for k
    by (simp add: take_map [symmetric] sorted_wrt_take)
  with s show ?thesis
    by (simp add: run_query_def Let_def split: option.splits)
qed

lemma example_times:
  "example_sql_time (Str ''2024-01-15 10:00:00'') = Some 20240115100000"
  "example_sql_time (Str ''2024-02-01 00:00:00'') = Some 20240201000000"
  "example_sql_time (Str ''2024-01-31 00:00:00'') = Some 20240131000000"
  by (simp_all add: example_sql_time_def is_ymd_hms_def isdigit_ascii_def digits_value_def)

lemma length_group_count: "length (group_count xs) = card (set xs)"
proof -
  have "length (group_count xs) = length (map fst (group_count xs))" by simp
  also have "\<dots> = card (set (map fst (group_count xs)))"
    by (rule distinct_card [symmetric]) (rule distinct_group_count)
  also have "\<dots> = card (set xs)"
    by (simp add: fst_group_count)
  finally show ?thesis .
qed

lemma run_query_limit:
  "limit q = Some k \<Longrightarrow>
   run_query sql_time q start_date end_date t
   = take k (run_query sql_time (q\<lparr>limit := None\<rparr>) start_date end_date t)"
  by (simp add: run_query_def selected_def)

lemma sorted_take_drop:
  assumes "sorted (map f xs)" and "a \<in> set (take k xs)" and "b \<in> set (drop k xs)"
  shows "f a \<le> f b"
proof -
  have "map f xs = map f (take k xs) @ map f (drop k xs)"
    by (simp only: map_append [symmetric] append_take_drop_id)
  with assms(1) have "sorted (map f (take k xs) @ map f (drop k xs))" by simp
  then have "\<forall>x \<in> set (map f (take k xs)). \<forall>y \<in> set (map f (drop k xs)). x \<le> y"
    by (simp only: sorted_append) blast
  with assms(2,3) show ?thesis by simp
qed

lemma length_run_query:
  "length (run_query sql_time q start_date end_date t)
   = (case limit q of
        None \<Rightarrow> card (set (map (\<lambda>r. field r (group_by q))
                                 (selected sql_time q start_date end_date t)))
      | Some k \<Rightarrow> min k (card (set (map (\<lambda>r. field r (group_by q))
                                 (selected sql_time q start_date end_date t)))))"
  by (simp add: run_query_def Let_def length_group_count min.commute split: option.splits)

lemma between_iff:
  "between sql_time start_date end_date r
   \<longleftrightarrow> (\<exists>ts. sql_time (field r ''Timestamp'') = Some ts \<and> start_date \<le> ts \<and> ts \<le> end_date)"
  by (simp add: between_def split: option.splits)

lemma run_query_top:
  assumes "(x, n) \<in> set (run_query sql_time q start_date end_date t)"
    and "(y, m) \<in> set (group_count (map (\<lambda>r. field r (group_by q))
                                   (selected sql_time q start_date end_date t)))"
    and "y \<notin> fst ` set (run_query sql_time q start_date end_date t)"
  shows "m \<le> n"
proof (cases "limit q")
  case None
  with assms(2,3) show ?thesis
    using set_run_query_all [OF None, of sql_time start_date end_date t] by force
next
  case (Some k)
  let ?g = "group_count (map (\<lambda>r. field r (group_by q))
                              (selected sql_time q start_date end_date t))"
  let ?o = "sort_key (\<lambda>(x, n). - int n) ?g"
  have r: "run_query sql_time q start_date end_date t = take k ?o"
    using Some by (simp add: run_query_def)
  from assms(2) have "(y, m) \<in> set ?o" by simp
  then have "(y, m) \<in> set (take k ?o) \<union> set (drop k ?o)"
    by (simp only: set_append [symmetric] append_take_drop_id)
  moreover from assms(3) have "(y, m) \<notin> set (take k ?o)"
    unfolding r by force
  ultimately have d: "(y, m) \<in> set (drop k ?o)" by blast
  have s: "sorted (map (\<lambda>(x, n). - int n) ?o)" by (rule sorted_sort_key)
  from assms(1) have a: "(x, n) \<in> set (take k ?o)" unfolding r .
  from sorted_take_drop [OF s a d] show ?thesis by simp
qed

lemma example_times2:
  "example_sql_time (Str ''2023-12-31 23:59:59'') = Some 20231231235959"
  "example_sql_time (Str ''2024-01-01 00:00:00'') = Some 20240101000000"
  "example_sql_time PyNone = None"
  by (simp_all add: example_sql_time_def is_ymd_hms_def isdigit_ascii_def digits_value_def)

section \<open>Claims\<close>

text \<open>
  C7. Header normalization removes the leading and trailing white space, non-breaking
  spaces included, of every column name: a header made of a name \<open>core\<close> (that has no
  such white space at its ends) with white space \<open>p\<close> before and \<open>q\<close> after it is
  normalized to \<open>core\<close>, with the non-breaking spaces inside \<open>core\<close> turned into
  spaces, and the normalized name has no white space at its ends. Hence two
  header rows whose names differ only in the white space around them normalize to the
  same column names.
\<close>

theorem clean_column_names_strips:
  assumes "length hs = length hs'"
    and "\<forall>((p, core, q), (p', core', q')) \<in> set (zip hs hs').
           core = core' \<and> (\<forall>c\<in>set (p @ q @ p' @ q'). isspace c)"
  shows "clean_column_names (map (\<lambda>(p, core, q). p @ core @ q) hs)
           = clean_column_names (map (\<lambda>(p, core, q). p @ core @ q) hs')
         \<and> clean_column_names (map (\<lambda>(p, core, q). p @ core @ q) hs)
           = map (\<lambda>(p, core, q). replace_nbsp (strip core)) hs
         \<and> (\<forall>col \<in> set (clean_column_names (map (\<lambda>(p, core, q). p @ core @ q) hs)).
              trimmed col)"
  using assms
proof (induction hs hs' rule: list_induct2)
  case Nil
  then show ?case by (simp add: clean_column_names_def)
next
  case (Cons h hs h' hs')
  obtain p core q where h: "h = (p, core, q)" by (cases h)
  obtain p' core' q' where h': "h' = (p', core', q')" by (cases h')
  from Cons.prems h h' have c: "core = core'"
    and ws: "\<forall>c\<in>set p. isspace c" "\<forall>c\<in>set q. isspace c"
            "\<forall>c\<in>set p'. isspace c" "\<forall>c\<in>set q'. isspace c"
    by auto
  from Cons.prems have rest:
    "\<forall>((p, core, q), (p', core', q')) \<in> set (zip hs hs').
        core = core' \<and> (\<forall>c\<in>set (p @ q @ p' @ q'). isspace c)"
    by simp
  let ?F = "\<lambda>(p, core, q). p @ core @ q"
  let ?G = "\<lambda>(p, core, q). replace_nbsp (strip core)"
  from Cons.IH [OF rest]
  have i1: "clean_column_names (map ?F hs) = clean_column_names (map ?F hs')"
    and i2: "clean_column_names (map ?F hs) = map ?G hs"
    and i3: "\<forall>col \<in> set (clean_column_names (map ?F hs)). trimmed col"
    by blast+
  have A: "clean_column_names (map ?F (h # hs))
           = replace_nbsp (strip core) # clean_column_names (map ?F hs)"
    using ws by (simp add: clean_column_names_def h strip_padding)
  have B: "clean_column_names (map ?F (h' # hs'))
           = replace_nbsp (strip core) # clean_column_names (map ?F hs')"
    using ws c by (simp add: clean_column_names_def h' strip_padding)
  have C: "map ?G (h # hs) = replace_nbsp (strip core) # map ?G hs"
    by (simp add: h)
  have D: "trimmed (replace_nbsp (strip core))"
    by (simp add: replace_nbsp_trimmed trimmed_strip)
  show ?case
    unfolding A B C using i1 i2 i3 D by simp
qed

theorem clean_column_names_strips_witness:
  "clean_column_names [[CHR 0xA0] @ ''Unique ID'' @ '' '', ''Payer'']
     = clean_column_names ['' '' @ ''Unique ID'', ''Payer'' @ ''  '']
   \<and> clean_column_names [[CHR 0xA0] @ ''Unique ID'' @ '' '', ''Payer'']
     = [''Unique ID'', ''Payer'']"
proof -
  let ?F = "\<lambda>(p, core, q). p @ core @ q"
  let ?G = "\<lambda>(p, core, q). replace_nbsp (strip core)"
  let ?hs = "[([CHR 0xA0], ''Unique ID'', '' ''), ([], ''Payer'', [])]"
  let ?hs' = "[('' '', ''Unique ID'', []), ([], ''Payer'', ''  '')]"
  have sp: "isspace CHR '' ''" "isspace CHR 0xA0"
    by (simp_all add: isspace_def)
  have a: "length ?hs = length ?hs'" by simp
  have b: "\<forall>((p, core, q), (p', core', q')) \<in> set (zip ?hs ?hs').
           core = core' \<and> (\<forall>c\<in>set (p @ q @ p' @ q'). isspace c)"
    using sp by simp
  have t: "trimmed ''Unique ID''" "trimmed ''Payer''"
    by (simp_all add: trimmed_def isspace_def)
  have n: "replace_nbsp ''Unique ID'' = ''Unique ID''" "replace_nbsp ''Payer'' = ''Payer''"
    by (simp_all add: replace_nbsp_def)
  have m1: "map ?F ?hs = [[CHR 0xA0] @ ''Unique ID'' @ '' '', ''Payer'']"
    by simp
  have m2: "map ?F ?hs' = ['' '' @ ''Unique ID'', ''Payer'' @ ''  '']"
    by simp
  have m3: "map ?G ?hs = [''Unique ID'', ''Payer'']"
    by (simp add: strip_trimmed t n)
  from clean_column_names_strips [OF a b] show ?thesis
    unfolding m1 m2 m3 by blast
qed

text \<open>
  C2. When a required column is absent after header normalization, the run shows one
  error and ends there: the connection is not even opened, so no row is inserted. The
  text of the error is \<open>Invalid file: Missing required columns - \<close> followed by the
  names of \<open>REQUIRED_COLUMNS\<close> that are not in the normalized header, exactly those, in
  the order of \<open>REQUIRED_COLUMNS\<close>, each but the last followed by a comma and a space.
\<close>

theorem missing_columns_reported:
  assumes "\<exists>col \<in> set REQUIRED_COLUMNS. col \<notin> set (clean_column_names (columns df0))"
  shows "import_csv_page L (Some (Inr df0)) button get_connection
           = (get_connection,
              [St_error (''Invalid file: Missing required columns - ''
                 @ concat (map (\<lambda>col. col @ '', '')
                     (butlast (filter (\<lambda>col. col \<notin> set (clean_column_names (columns df0)))
                                 REQUIRED_COLUMNS)))
                 @ last (filter (\<lambda>col. col \<notin> set (clean_column_names (columns df0)))
                           REQUIRED_COLUMNS))])
       \<and> filter (\<lambda>col. col \<notin> set (clean_column_names (columns df0))) REQUIRED_COLUMNS \<noteq> []
       \<and> missing_columns (cleaned df0)
           = filter (\<lambda>col. col \<notin> set (clean_column_names (columns df0))) REQUIRED_COLUMNS
       \<and> import_csv_page L (Some (Inr df0)) button get_connection
           = (get_connection,
              [St_error (''Invalid file: Missing required columns - ''
                         @ join '', '' (missing_columns (cleaned df0)))])"
proof -
  let ?ms = "filter (\<lambda>col. col \<notin> set (clean_column_names (columns df0))) REQUIRED_COLUMNS"
  have m: "missing_columns (cleaned df0) = ?ms"
    by (simp add: missing_columns_def cleaned_def fillna_def)
  from assms have ne: "?ms \<noteq> []"
    by (simp add: filter_empty_conv)
  have p: "import_csv_page L (Some (Inr df0)) button get_connection
           = (get_connection,
              [St_error (''Invalid file: Missing required columns - ''
                         @ join '', '' (missing_columns (cleaned df0)))])"
    using m ne by (simp add: import_csv_page_def Let_def)
  have p': "import_csv_page L (Some (Inr df0)) button get_connection
           = (get_connection,
              [St_error (''Invalid file: Missing required columns - ''
                         @ concat (map (\<lambda>col. col @ '', '') (butlast ?ms)) @ last ?ms)])"
    unfolding p m join_concat [OF ne] ..
  from p' ne m p show ?thesis by (intro conjI)
qed

theorem missing_columns_reported_witness:
  "import_csv_page example_library
     (Some (Inr \<lparr>columns =
        ['' Timestamp'', ''Email Address'', ''OCR'', ''Bill Ref Code'', ''Track ID'',
         ''Annotation ID'', ''Document Type'', ''Matched Payee ID'', ''Review'',
         ''Bill Lines'', ''Payee Name'', ''Invoice'', ''Invoice Date'', ''Invoice Due Date'',
         ''Terms'', ''PO'', ''Tax Amt'', ''Total Amt'', ''Currency'', ''Foreign Language'',
         ''Quality Analyst'', ''Invoice Pages'', ''Multiple Payees'', ''Comments'',
         ''PST to IST'', ''US Date'', ''IND Date'', ''IND Time'', ''Team'', ''Agent'',
         ''Unique ID'' @ [CHR 0xA0], ''Priority'', ''Month'', ''Hour'', ''Extra''],
        rows = []\<rparr>)) True
     (Some \<lparr>table = Some [], pending = [], round_trips = None\<rparr>)
   = (Some \<lparr>table = Some [], pending = [], round_trips = None\<rparr>,
      [St_error ''Invalid file: Missing required columns - Payer, EMEA''])"
proof -
  let ?h = "['' Timestamp'', ''Email Address'', ''OCR'', ''Bill Ref Code'', ''Track ID'',
         ''Annotation ID'', ''Document Type'', ''Matched Payee ID'', ''Review'',
         ''Bill Lines'', ''Payee Name'', ''Invoice'', ''Invoice Date'', ''Invoice Due Date'',
         ''Terms'', ''PO'', ''Tax Amt'', ''Total Amt'', ''Currency'', ''Foreign Language'',
         ''Quality Analyst'', ''Invoice Pages'', ''Multiple Payees'', ''Comments'',
         ''PST to IST'', ''US Date'', ''IND Date'', ''IND Time'', ''Team'', ''Agent'',
         ''Unique ID'' @ [CHR 0xA0], ''Priority'', ''Month'', ''Hour'', ''Extra'']"
  let ?df = "\<lparr>columns = ?h, rows = []\<rparr> :: cell frame"
  have c: "clean_column_names ?h =
        [''Timestamp'', ''Email Address'', ''OCR'', ''Bill Ref Code'', ''Track ID'',
         ''Annotation ID'', ''Document Type'', ''Matched Payee ID'', ''Review'',
         ''Bill Lines'', ''Payee Name'', ''Invoice'', ''Invoice Date'', ''Invoice Due Date'',
         ''Terms'', ''PO'', ''Tax Amt'', ''Total Amt'', ''Currency'', ''Foreign Language'',
         ''Quality Analyst'', ''Invoice Pages'', ''Multiple Payees'', ''Comments'',
         ''PST to IST'', ''US Date'', ''IND Date'', ''IND Time'', ''Team'', ''Agent'',
         ''Unique ID'', ''Priority'', ''Month'', ''Hour'', ''Extra'']"
    by (simp add: clean_column_names_def strip_def isspace_def replace_nbsp_def)
  have f: "filter (\<lambda>col. col \<notin> set (clean_column_names (columns ?df))) REQUIRED_COLUMNS
           = [''Payer'', ''EMEA'']"
    unfolding frame.simps c by (simp add: REQUIRED_COLUMNS_def)
  have h: "\<exists>col \<in> set REQUIRED_COLUMNS. col \<notin> set (clean_column_names (columns ?df))"
  proof
    show "''Payer'' \<in> set REQUIRED_COLUMNS" by (simp add: REQUIRED_COLUMNS_def)
    show "''Payer'' \<notin> set (clean_column_names (columns ?df))"
      unfolding frame.simps c by simp
  qed
  from missing_columns_reported [OF h, of example_library True
      "Some \<lparr>table = Some [], pending = [], round_trips = None\<rparr>"]
  have "import_csv_page example_library (Some (Inr ?df)) True
          (Some \<lparr>table = Some [], pending = [], round_trips = None\<rparr>)
        = (Some \<lparr>table = Some [], pending = [], round_trips = None\<rparr>,
           [St_error (''Invalid file: Missing required columns - ''
              @ concat (map (\<lambda>col. col @ '', '')
                  (butlast (filter (\<lambda>col. col \<notin> set (clean_column_names (columns ?df)))
                              REQUIRED_COLUMNS)))
              @ last (filter (\<lambda>col. col \<notin> set (clean_column_names (columns ?df)))
                        REQUIRED_COLUMNS))])"
    by (rule conjunct1)
  then show ?thesis unfolding f by simp
qed

text \<open>
  C4. The claim says that an integer column never holds a value that is not a whole
  number. The code reads an \<open>Int64\<close> column with \<open>pd.to_numeric\<close>, which accepts
  decimals, and \<open>downcast="integer"\<close> leaves a column with such a value as it is:
  the cell \<open>"12.5"\<close> of the column \<open>Bill Lines\<close> becomes the number 12.5.
\<close>

theorem int64_column_keeps_fraction:
  "enforce_data_types L \<lparr>columns = [''Bill Lines''], rows = [[Str ''12.5'']]\<rparr>
     = (\<lparr>columns = [''Bill Lines''], rows = [[Num (25 / 2)]]\<rparr>, [])
   \<and> (25 / 2 :: rat) \<notin> \<int>"
proof -
  have m: "map_of COLUMN_DATA_TYPES ''Bill Lines'' = Some Int64"
    by (simp add: COLUMN_DATA_TYPES_def)
  have w: "conversion_warnings \<lparr>columns = [''Bill Lines''], rows = [[Str ''12.5'']]\<rparr>
             COLUMN_DATA_TYPES = []"
    by (simp add: conversion_warnings_def COLUMN_DATA_TYPES_def)
  show ?thesis
    by (simp add: enforce_data_types_eq w coerced_def coerce_cell_def m convert_cell_def
        get_column_def cell_of_def to_numeric_12_5 downcast_integer_def not_close_12_5
        half_not_int)
qed





text \<open>
  C8. With the table present, nothing pending and a header without repeated names, the
  rows of the frame go to the table in consecutive batches of \<open>batch_size\<close> rows (the
  last may be shorter, none is empty), one \<open>executemany\<close> and one \<open>commit\<close> per batch.
  A stored row pairs the column names with the cells of its row, each cell as it is
  except the missing ones (\<open>NaN\<close>, \<open>None\<close>), which are stored as \<open>None\<close>. The table
  afterwards holds the batches of the round trips the connection completed, and the
  loop ends without exception exactly when it completed all of them. With the default
  size 2000, 4500 rows make three round trips of 2000, 2000 and 500 rows; a connection
  that fails after two leaves the first 4000 rows committed.
\<close>

theorem batches_committed_independently:
  assumes "table conn = Some t" and "pending conn = []" and "distinct (columns df)"
    and "0 < batch_size"
  shows
    "table (fst (insert_data_in_batches conn df (int batch_size)))
       = Some (t @ map (\<lambda>r. zip (columns df)
                                (map (\<lambda>x. if x = NaN \<or> x = PyNone then PyNone else x) r))
                     (concat (completed (round_trips conn) (batches (rows df) batch_size 0))))
     \<and> table (fst (insert_data_in_batches conn df (int batch_size)))
       = Some (t @ stored_rows (columns df)
                     (concat (completed (round_trips conn) (batches (rows df) batch_size 0))))
     \<and> (snd (insert_data_in_batches conn df (int batch_size)) = None
          \<longleftrightarrow> (case round_trips conn of None \<Rightarrow> True
               | Some k \<Rightarrow> length (batches (rows df) batch_size 0) \<le> k))
     \<and> concat (batches (rows df) batch_size 0) = rows df
     \<and> (\<forall>b \<in> set (batches (rows df) batch_size 0). 0 < length b \<and> length b \<le> batch_size)
     \<and> (\<forall>b \<in> set (butlast (batches (rows df) batch_size 0)). length b = batch_size)
     \<and> (\<forall>s \<in> set (stored_rows (columns df) (rows df)). \<forall>(name, x) \<in> set s. x \<noteq> NaN)
     \<and> (batch_size = 2000 \<and> length (rows df) = 4500 \<longrightarrow>
          map length (batches (rows df) batch_size 0) = [2000, 2000, 500]
          \<and> (round_trips conn = Some 2 \<longrightarrow>
               table (fst (insert_data_in_batches conn df (int batch_size)))
                 = Some (t @ stored_rows (columns df) (take 4000 (rows df)))
               \<and> table (fst (insert_data_in_batches conn df (int batch_size)))
                 = Some (t @ map (\<lambda>r. zip (columns df)
                                (map (\<lambda>x. if x = NaN \<or> x = PyNone then PyNone else x) r))
                              (take 4000 (rows df)))
               \<and> snd (insert_data_in_batches conn df (int batch_size)) \<noteq> None)
          \<and> (round_trips conn = None \<or> round_trips conn = Some 3 \<longrightarrow>
               table (fst (insert_data_in_batches conn df (int batch_size)))
                 = Some (t @ stored_rows (columns df) (rows df))
               \<and> table (fst (insert_data_in_batches conn df (int batch_size)))
                 = Some (t @ map (\<lambda>r. zip (columns df)
                                (map (\<lambda>x. if x = NaN \<or> x = PyNone then PyNone else x) r))
                              (rows df))
               \<and> snd (insert_data_in_batches conn df (int batch_size)) = None))"
proof -
  let ?res = "insert_data_in_batches conn df (int batch_size)"
  let ?bs = "batches (rows df) batch_size 0"
  let ?st = "\<lambda>rs. map (\<lambda>r. zip (columns df)
                                (map (\<lambda>x. if x = NaN \<or> x = PyNone then PyNone else x) r)) rs"
  have st: "stored_rows (columns df) rs = ?st rs" for rs
    by (rule stored_rows_values)
  have res: "?res = insert_batches conn (columns df) (rows df) batch_size 0"
    using assms(4) by (simp add: insert_data_in_batches_def)
  note ib = insert_batches_result [OF assms(1,2,3), of "rows df" batch_size 0]
  have 1: "table (fst ?res)
           = Some (t @ stored_rows (columns df) (concat (completed (round_trips conn) ?bs)))"
    using ib unfolding res by blast
  have T1: "table (fst ?res) = Some (t @ ?st (concat (completed (round_trips conn) ?bs)))"
    using 1 unfolding st .
  have 2: "snd ?res = None
           \<longleftrightarrow> (case round_trips conn of None \<Rightarrow> True | Some k \<Rightarrow> length ?bs \<le> k)"
    using ib unfolding res by blast
  have 3: "concat ?bs = rows df"
    using concat_batches [OF assms(4), of "rows df" 0] by simp
  have 4: "\<forall>b \<in> set ?bs. 0 < length b \<and> length b \<le> batch_size"
    using length_batches_le by blast
  have 5: "\<forall>b \<in> set (butlast ?bs). length b = batch_size"
    using length_batches_butlast by blast
  have 6: "\<forall>s \<in> set (stored_rows (columns df) (rows df)). \<forall>(name, x) \<in> set s. x \<noteq> NaN"
    using stored_rows_no_NaN by blast
  have 7: "batch_size = 2000 \<and> length (rows df) = 4500 \<longrightarrow>
           map length ?bs = [2000, 2000, 500]
           \<and> (round_trips conn = Some 2 \<longrightarrow>
               table (fst ?res) = Some (t @ stored_rows (columns df) (take 4000 (rows df)))
               \<and> table (fst ?res) = Some (t @ ?st (take 4000 (rows df)))
               \<and> snd ?res \<noteq> None)
           \<and> (round_trips conn = None \<or> round_trips conn = Some 3 \<longrightarrow>
               table (fst ?res) = Some (t @ stored_rows (columns df) (rows df))
               \<and> table (fst ?res) = Some (t @ ?st (rows df))
               \<and> snd ?res = None)" (is "_ \<longrightarrow> ?C")
  proof
    assume h: "batch_size = 2000 \<and> length (rows df) = 4500"
    from h have b: "?bs = [take 2000 (rows df), take 2000 (drop 2000 (rows df)),
                           drop 4000 (rows df)]"
      using batches_4500 [of "rows df"] by simp
    have l: "map length ?bs = [2000, 2000, 500]"
      unfolding b using h by simp
    have c2: "concat (completed (Some 2) ?bs) = take 4000 (rows df)"
      unfolding b using take_add [of 2000 2000 "rows df"]
      by (simp add: completed_def numeral_2_eq_2)
    have c3: "concat (completed (Some 3) ?bs) = rows df"
      using 3 unfolding b by (simp add: completed_def numeral_3_eq_3)
    have cn: "concat (completed None ?bs) = rows df"
      using 3 by (simp add: completed_def)
    have len: "length ?bs = 3" unfolding b by simp
    have A: "table (fst ?res) = Some (t @ stored_rows (columns df) (take 4000 (rows df)))
             \<and> snd ?res \<noteq> None" if "round_trips conn = Some 2"
      using 1 2 c2 len that by simp
    have B: "table (fst ?res) = Some (t @ stored_rows (columns df) (rows df))
             \<and> snd ?res = None" if "round_trips conn = None \<or> round_trips conn = Some 3"
      using 1 2 c3 cn len that by auto
    show ?C
      using l A B unfolding st by blast
  qed
  show ?thesis
    using T1 1 2 3 4 5 6 7 by (intro conjI)
qed

theorem batches_committed_independently_witness:
  "table (fst (insert_data_in_batches
                 \<lparr>table = Some [], pending = [], round_trips = Some 2\<rparr>
                 \<lparr>columns = [''Unique ID'', ''Payer''],
                  rows = replicate 4500 [Str ''x'', NaN]\<rparr> 2000))
   = Some (replicate 4000 [(''Unique ID'', Str ''x''), (''Payer'', PyNone)])"
proof -
  let ?conn = "\<lparr>table = Some [], pending = [], round_trips = Some 2\<rparr>"
  let ?df = "\<lparr>columns = [''Unique ID'', ''Payer''],
              rows = replicate 4500 [Str ''x'', NaN]\<rparr> :: cell frame"
  have a: "table ?conn = Some []" by simp
  have b: "pending ?conn = []" by simp
  have c: "distinct (columns ?df)" by simp
  have d: "0 < (2000 :: nat)" by simp
  have e: "(2000 :: nat) = 2000 \<and> length (rows ?df) = 4500" by simp
  have f: "round_trips ?conn = Some 2" by simp
  have g: "int 2000 = 2000" by simp
  from batches_committed_independently [OF a b c d] e f
  have "table (fst (insert_data_in_batches ?conn ?df (int 2000)))
        = Some ([] @ map (\<lambda>r. zip (columns ?df)
                                (map (\<lambda>x. if x = NaN \<or> x = PyNone then PyNone else x) r))
                       (take 4000 (rows ?df)))"
    by blast
  then show ?thesis unfolding g by simp
qed

text \<open>
  C9. On a connection whose table exists, \<open>fetch_data\<close> returns the result of the query
  and no error. Each row of the result is a value of the grouping column other than
  \<open>NULL\<close>, with the number, at least one, of the rows of the table that have this value
  and a time stamp \<open>ts\<close> with \<open>start_date \<le> ts \<le> end_date\<close> (a row without time
  stamp is never counted); no value comes twice and the counts descend. Without
  \<open>LIMIT\<close> every such value comes; with \<open>LIMIT k\<close> the result is the first \<open>k\<close> rows
  of the result without \<open>LIMIT\<close>: it has \<open>k\<close> rows, or all if there are fewer, and no
  value left out has a greater count than one that is returned. When no row of the
  table qualifies, the result is the empty frame, again with no error.
\<close>

theorem queries_count_rows_in_range:
  assumes "table conn = Some t"
  shows
    "fetch_data sql_time (Some conn) q start_date end_date
       = (Some (run_query sql_time q start_date end_date t), None)
     \<and> (\<forall>(x, n) \<in> set (run_query sql_time q start_date end_date t).
          x \<noteq> PyNone \<and> 0 < n
          \<and> n = length (filter (\<lambda>r. field r (group_by q) = x
                     \<and> (\<exists>ts. sql_time (field r ''Timestamp'') = Some ts
                              \<and> start_date \<le> ts \<and> ts \<le> end_date)) t))
     \<and> distinct (map fst (run_query sql_time q start_date end_date t))
     \<and> sorted (map (\<lambda>(x, n). - int n) (run_query sql_time q start_date end_date t))
     \<and> (limit q = None \<longrightarrow>
          fst ` set (run_query sql_time q start_date end_date t)
            = {field r (group_by q) | r.
                 r \<in> set t \<and> field r (group_by q) \<noteq> PyNone
                 \<and> (\<exists>ts. sql_time (field r ''Timestamp'') = Some ts
                          \<and> start_date \<le> ts \<and> ts \<le> end_date)})
     \<and> length (run_query sql_time q start_date end_date t)
         = (case limit q of
              None \<Rightarrow> card {field r (group_by q) | r.
                 r \<in> set t \<and> field r (group_by q) \<noteq> PyNone
                 \<and> (\<exists>ts. sql_time (field r ''Timestamp'') = Some ts
                          \<and> start_date \<le> ts \<and> ts \<le> end_date)}
            | Some k \<Rightarrow> min k (card {field r (group_by q) | r.
                 r \<in> set t \<and> field r (group_by q) \<noteq> PyNone
                 \<and> (\<exists>ts. sql_time (field r ''Timestamp'') = Some ts
                          \<and> start_date \<le> ts \<and> ts \<le> end_date)}))
     \<and> (\<forall>(x, n) \<in> set (run_query sql_time q start_date end_date t).
          \<forall>r \<in> set t.
            field r (group_by q) \<noteq> PyNone
            \<and> (\<exists>ts. sql_time (field r ''Timestamp'') = Some ts
                     \<and> start_date \<le> ts \<and> ts \<le> end_date)
            \<and> field r (group_by q) \<notin> fst ` set (run_query sql_time q start_date end_date t)
            \<longrightarrow> length (filter (\<lambda>r'. field r' (group_by q) = field r (group_by q)
                     \<and> (\<exists>ts. sql_time (field r' ''Timestamp'') = Some ts
                              \<and> start_date \<le> ts \<and> ts \<le> end_date)) t) \<le> n)
     \<and> (\<forall>k. limit q = Some k \<longrightarrow>
          run_query sql_time q start_date end_date t
            = take k (run_query sql_time (q\<lparr>limit := None\<rparr>) start_date end_date t))
     \<and> ((\<forall>r \<in> set t. field r (group_by q) = PyNone
            \<or> \<not> (\<exists>ts. sql_time (field r ''Timestamp'') = Some ts
                      \<and> start_date \<le> ts \<and> ts \<le> end_date))
          \<longrightarrow> fetch_data sql_time (Some conn) q start_date end_date = (Some [], None))"
proof -
  let ?in = "\<lambda>r. \<exists>ts. sql_time (field r ''Timestamp'') = Some ts
                       \<and> start_date \<le> ts \<and> ts \<le> end_date"
  let ?G = "{field r (group_by q) | r.
               r \<in> set t \<and> field r (group_by q) \<noteq> PyNone \<and> ?in r}"
  let ?sel = "selected sql_time q start_date end_date t"
  let ?xs = "map (\<lambda>r. field r (group_by q)) ?sel"
  let ?res = "run_query sql_time q start_date end_date t"
  have bw: "between sql_time start_date end_date r = ?in r" for r
    by (rule between_iff)
  have sel: "?sel = filter (\<lambda>r. field r (group_by q) \<noteq> PyNone \<and> ?in r) t"
    unfolding selected_def bw ..
  have 1: "fetch_data sql_time (Some conn) q start_date end_date = (Some ?res, None)"
    using assms by (simp add: fetch_data_def)
  have xs: "set ?xs = ?G"
    unfolding sel by auto
  have cnt: "length (filter (\<lambda>z. z = x) ?xs)
             = length (filter (\<lambda>r. field r (group_by q) = x \<and> ?in r) t)"
    if ne: "x \<noteq> PyNone" for x
  proof -
    have e1: "length (filter (\<lambda>z. z = x) ?xs)
          = length (filter (\<lambda>r. field r (group_by q) = x) ?sel)"
      by (simp add: filter_map comp_def)
    have e2: "filter (\<lambda>r. field r (group_by q) = x) ?sel
          = filter (\<lambda>r. field r (group_by q) = x \<and> ?in r) t"
      unfolding sel filter_filter
      by (rule filter_cong [OF refl]) (use ne in auto)
    show ?thesis unfolding e1 e2 ..
  qed
  have 2: "x \<noteq> PyNone \<and> 0 < n
          \<and> n = length (filter (\<lambda>r. field r (group_by q) = x \<and> ?in r) t)"
    if "(x, n) \<in> set ?res" for x n
  proof -
    from that set_run_query_subset have "(x, n) \<in> set (group_count ?xs)" by blast
    from group_count_counts [OF this]
    have n: "n = length (filter (\<lambda>z. z = x) ?xs)" and x: "x \<in> set ?xs" by blast+
    from x xs have ne: "x \<noteq> PyNone" by auto
    from x have "x \<in> set (filter (\<lambda>z. z = x) ?xs)"
      by (simp only: set_filter mem_Collect_eq simp_thms)
    then have "0 < length (filter (\<lambda>z. z = x) ?xs)"
      by (rule length_pos_if_in_set)
    then have pos: "0 < n" unfolding n .
    have "n = length (filter (\<lambda>r. field r (group_by q) = x \<and> ?in r) t)"
      unfolding n cnt [OF ne] by (rule refl)
    with ne pos show ?thesis by blast
  qed
  have c2: "\<forall>(x, n) \<in> set ?res.
          x \<noteq> PyNone \<and> 0 < n
          \<and> n = length (filter (\<lambda>r. field r (group_by q) = x \<and> ?in r) t)"
  proof (rule ballI)
    fix p assume p: "p \<in> set ?res"
    obtain x n where pe: "p = (x, n)" by (cases p)
    with p have "(x, n) \<in> set ?res" by simp
    from 2 [OF this] show "case p of (x, n) \<Rightarrow>
          x \<noteq> PyNone \<and> 0 < n
          \<and> n = length (filter (\<lambda>r. field r (group_by q) = x \<and> ?in r) t)"
      unfolding pe prod.case .
  qed
  have c5: "limit q = None \<longrightarrow> fst ` set ?res = ?G"
  proof
    assume l: "limit q = None"
    show "fst ` set ?res = ?G"
      unfolding set_run_query_all [OF l] fst_group_count by (rule xs)
  qed
  have c6: "length ?res = (case limit q of None \<Rightarrow> card ?G | Some k \<Rightarrow> min k (card ?G))"
    unfolding length_run_query xs ..
  have top: "length (filter (\<lambda>r'. field r' (group_by q) = field r (group_by q) \<and> ?in r') t) \<le> n"
    if a: "(x, n) \<in> set ?res" and r: "r \<in> set t" and ne: "field r (group_by q) \<noteq> PyNone"
      and i: "?in r" and out: "field r (group_by q) \<notin> fst ` set ?res" for x n r
  proof -
    let ?y = "field r (group_by q)"
    from r ne i have "?y \<in> ?G" by blast
    then have "?y \<in> fst ` set (group_count ?xs)"
      unfolding fst_group_count xs .
    then obtain m where m: "(?y, m) \<in> set (group_count ?xs)" by force
    from group_count_counts [OF m] have "m = length (filter (\<lambda>z. z = ?y) ?xs)" by blast
    then have me: "m = length (filter (\<lambda>r'. field r' (group_by q) = ?y \<and> ?in r') t)"
      unfolding cnt [OF ne] .
    from run_query_top [OF a m out] show ?thesis unfolding me .
  qed
  have c7: "\<forall>(x, n) \<in> set ?res. \<forall>r \<in> set t.
            field r (group_by q) \<noteq> PyNone \<and> ?in r
            \<and> field r (group_by q) \<notin> fst ` set ?res
            \<longrightarrow> length (filter (\<lambda>r'. field r' (group_by q) = field r (group_by q)
                                       \<and> ?in r') t) \<le> n"
  proof (rule ballI)
    fix p assume p: "p \<in> set ?res"
    obtain x n where pe: "p = (x, n)" by (cases p)
    with p have a: "(x, n) \<in> set ?res" by simp
    have "\<forall>r \<in> set t.
            field r (group_by q) \<noteq> PyNone \<and> ?in r
            \<and> field r (group_by q) \<notin> fst ` set ?res
            \<longrightarrow> length (filter (\<lambda>r'. field r' (group_by q) = field r (group_by q)
                                       \<and> ?in r') t) \<le> n"
      using top [OF a] by blast
    then show "case p of (x, n) \<Rightarrow> \<forall>r \<in> set t.
            field r (group_by q) \<noteq> PyNone \<and> ?in r
            \<and> field r (group_by q) \<notin> fst ` set ?res
            \<longrightarrow> length (filter (\<lambda>r'. field r' (group_by q) = field r (group_by q)
                                       \<and> ?in r') t) \<le> n"
      unfolding pe prod.case .
  qed
  have c8: "\<forall>k. limit q = Some k \<longrightarrow>
          ?res = take k (run_query sql_time (q\<lparr>limit := None\<rparr>) start_date end_date t)"
    using run_query_limit by blast
  have c9: "(\<forall>r \<in> set t. field r (group_by q) = PyNone \<or> \<not> ?in r)
          \<longrightarrow> fetch_data sql_time (Some conn) q start_date end_date = (Some [], None)"
  proof
    assume a: "\<forall>r \<in> set t. field r (group_by q) = PyNone \<or> \<not> ?in r"
    then have "?sel = []" unfolding sel by (auto simp: filter_empty_conv)
    then have "?res = []" by (simp add: run_query_def Let_def split: option.splits)
    with 1 show "fetch_data sql_time (Some conn) q start_date end_date = (Some [], None)"
      by simp
  qed
  show ?thesis
    using 1 c2 distinct_run_query [of sql_time q start_date end_date t]
      sorted_run_query [of sql_time q start_date end_date t] c5 c6 c7 c8 c9
    by (intro conjI)
qed

theorem queries_count_rows_in_range_witness:
  "fetch_data example_sql_time
     (Some \<lparr>table = Some
        [[(''Payer'', Str ''a''), (''Timestamp'', Str ''2024-01-15 10:00:00'')],
         [(''Payer'', Str ''a''), (''Timestamp'', Str ''2023-12-31 23:59:59'')],
         [(''Payer'', Str ''b''), (''Timestamp'', Str ''2024-01-31 00:00:00'')],
         [(''Payer'', Str ''b''), (''Timestamp'', Str ''2024-01-01 00:00:00'')],
         [(''Payer'', Str ''b''), (''Timestamp'', Str ''2024-01-15 10:00:00'')],
         [(''Payer'', Str ''c''), (''Timestamp'', Str ''2024-02-01 00:00:00'')],
         [(''Payer'', Str ''c''), (''Timestamp'', Str ''2024-01-15 10:00:00'')],
         [(''Payer'', PyNone), (''Timestamp'', Str ''2024-01-15 10:00:00'')],
         [(''Payer'', Str ''d''), (''Timestamp'', PyNone)],
         [(''Payer'', Str ''a''), (''Timestamp'', Str ''2024-01-15 10:00:00'')]],
        pending = [], round_trips = None\<rparr>)
     \<lparr>group_by = ''Payer'', limit = Some 2\<rparr> 20240101000000 20240131000000
   = (Some [(Str ''b'', 3), (Str ''a'', 2)], None)
   \<and> fetch_data example_sql_time
     (Some \<lparr>table = Some
        [[(''Payer'', Str ''a''), (''Timestamp'', Str ''2024-01-15 10:00:00'')],
         [(''Payer'', Str ''a''), (''Timestamp'', Str ''2023-12-31 23:59:59'')],
         [(''Payer'', Str ''b''), (''Timestamp'', Str ''2024-01-31 00:00:00'')],
         [(''Payer'', Str ''b''), (''Timestamp'', Str ''2024-01-01 00:00:00'')],
         [(''Payer'', Str ''b''), (''Timestamp'', Str ''2024-01-15 10:00:00'')],
         [(''Payer'', Str ''c''), (''Timestamp'', Str ''2024-02-01 00:00:00'')],
         [(''Payer'', Str ''c''), (''Timestamp'', Str ''2024-01-15 10:00:00'')],
         [(''Payer'', PyNone), (''Timestamp'', Str ''2024-01-15 10:00:00'')],
         [(''Payer'', Str ''d''), (''Timestamp'', PyNone)],
         [(''Payer'', Str ''a''), (''Timestamp'', Str ''2024-01-15 10:00:00'')]],
        pending = [], round_trips = None\<rparr>)
     \<lparr>group_by = ''Payer'', limit = None\<rparr> 20240101000000 20240131000000
   = (Some [(Str ''b'', 3), (Str ''a'', 2), (Str ''c'', 1)], None)
   \<and> fetch_data example_sql_time
     (Some \<lparr>table = Some
        [[(''Payer'', Str ''a''), (''Timestamp'', Str ''2023-12-31 23:59:59'')],
         [(''Payer'', Str ''c''), (''Timestamp'', Str ''2024-02-01 00:00:00'')],
         [(''Payer'', PyNone), (''Timestamp'', Str ''2024-01-15 10:00:00'')],
         [(''Payer'', Str ''d''), (''Timestamp'', PyNone)]],
        pending = [], round_trips = None\<rparr>)
     \<lparr>group_by = ''Payer'', limit = Some 2\<rparr> 20240101000000 20240131000000
   = (Some [], None)"
proof -
  let ?t = "[[(''Payer'', Str ''a''), (''Timestamp'', Str ''2024-01-15 10:00:00'')],
         [(''Payer'', Str ''a''), (''Timestamp'', Str ''2023-12-31 23:59:59'')],
         [(''Payer'', Str ''b''), (''Timestamp'', Str ''2024-01-31 00:00:00'')],
         [(''Payer'', Str ''b''), (''Timestamp'', Str ''2024-01-01 00:00:00'')],
         [(''Payer'', Str ''b''), (''Timestamp'', Str ''2024-01-15 10:00:00'')],
         [(''Payer'', Str ''c''), (''Timestamp'', Str ''2024-02-01 00:00:00'')],
         [(''Payer'', Str ''c''), (''Timestamp'', Str ''2024-01-15 10:00:00'')],
         [(''Payer'', PyNone), (''Timestamp'', Str ''2024-01-15 10:00:00'')],
         [(''Payer'', Str ''d''), (''Timestamp'', PyNone)],
         [(''Payer'', Str ''a''), (''Timestamp'', Str ''2024-01-15 10:00:00'')]]"
  let ?u = "[[(''Payer'', Str ''a''), (''Timestamp'', Str ''2023-12-31 23:59:59'')],
         [(''Payer'', Str ''c''), (''Timestamp'', Str ''2024-02-01 00:00:00'')],
         [(''Payer'', PyNone), (''Timestamp'', Str ''2024-01-15 10:00:00'')],
         [(''Payer'', Str ''d''), (''Timestamp'', PyNone)]]"
  let ?conn = "\<lparr>table = Some ?t, pending = [], round_trips = None\<rparr>"
  let ?conn' = "\<lparr>table = Some ?u, pending = [], round_trips = None\<rparr>"
  let ?q = "\<lparr>group_by = ''Payer'', limit = Some 2\<rparr>"
  let ?q' = "\<lparr>group_by = ''Payer'', limit = None\<rparr>"
  have a: "table ?conn = Some ?t" by simp
  have a': "table ?conn' = Some ?u" by simp
  have l: "limit ?q = Some 2" by simp
  have q': "?q\<lparr>limit := None\<rparr> = ?q'" by simp
  have r: "run_query example_sql_time ?q' 20240101000000 20240131000000 ?t
           = [(Str ''b'', 3), (Str ''a'', 2), (Str ''c'', 1)]"
    by (simp add: run_query_def selected_def between_def field_def example_times example_times2)
  have e: "\<forall>r \<in> set ?u. field r (group_by ?q) = PyNone
            \<or> \<not> (\<exists>ts. example_sql_time (field r ''Timestamp'') = Some ts
                      \<and> 20240101000000 \<le> ts \<and> ts \<le> 20240131000000)"
    by (simp add: field_def example_times example_times2)
  note A = queries_count_rows_in_range
             [OF a, of example_sql_time ?q 20240101000000 20240131000000]
  note B = queries_count_rows_in_range
             [OF a, of example_sql_time ?q' 20240101000000 20240131000000]
  note C = queries_count_rows_in_range
             [OF a', of example_sql_time ?q 20240101000000 20240131000000]
  from A l have "run_query example_sql_time ?q 20240101000000 20240131000000 ?t
        = take 2 (run_query example_sql_time (?q\<lparr>limit := None\<rparr>)
                    20240101000000 20240131000000 ?t)"
    by blast
  then have r2: "run_query example_sql_time ?q 20240101000000 20240131000000 ?t
                 = [(Str ''b'', 3), (Str ''a'', 2)]"
    unfolding q' r by simp
  from A have "fetch_data example_sql_time (Some ?conn) ?q 20240101000000 20240131000000
        = (Some (run_query example_sql_time ?q 20240101000000 20240131000000 ?t), None)"
    by (rule conjunct1)
  then have 1: "fetch_data example_sql_time (Some ?conn) ?q 20240101000000 20240131000000
        = (Some [(Str ''b'', 3), (Str ''a'', 2)], None)"
    unfolding r2 .
  from B have "fetch_data example_sql_time (Some ?conn) ?q' 20240101000000 20240131000000
        = (Some (run_query example_sql_time ?q' 20240101000000 20240131000000 ?t), None)"
    by (rule conjunct1)
  then have 2: "fetch_data example_sql_time (Some ?conn) ?q' 20240101000000 20240131000000
        = (Some [(Str ''b'', 3), (Str ''a'', 2), (Str ''c'', 1)], None)"
    unfolding r .
  from C e have 3: "fetch_data example_sql_time (Some ?conn') ?q 20240101000000 20240131000000
        = (Some [], None)"
    by blast
  from 1 2 3 show ?thesis by (intro conjI)
qed

end
